theory Spec2Isabelle
  imports Main "HOL-Library.Word" "HOL-Library.Signed_Division" "HOL-Library.Finite_Map"
begin

section \<open>Radix route tree (package router, the route tree file)\<close>

subsection \<open>splitPath\<close>

text \<open>
  Go strings are byte sequences, as \<^typ>\<open>string\<close> is. \<open>strings.Trim(p, " ")\<close> removes the
  leading and the trailing blanks.
\<close>

definition trimBlanks :: "string \<Rightarrow> string" where
  "trimBlanks p = rev (dropWhile (\<lambda>c. c = CHR '' '') (rev (dropWhile (\<lambda>c. c = CHR '' '') p)))"

text \<open>\<open>if idx := strings.IndexByte(p, c); idx >= 0 { p = p[:idx] }\<close>\<close>

definition cutAtByte :: "char \<Rightarrow> string \<Rightarrow> string" where
  "cutAtByte c p = takeWhile (\<lambda>x. x \<noteq> c) p"

text \<open>\<open>strings.Contains(p, "//")\<close>\<close>

fun containsSlashSlash :: "string \<Rightarrow> bool" where
  "containsSlashSlash (a # b # r) =
     ((a = CHR ''/'' \<and> b = CHR ''/'') \<or> containsSlashSlash (b # r))"
| "containsSlashSlash _ = False"

text \<open>\<open>strings.ReplaceAll(p, "//", "/")\<close>: non-overlapping occurrences, left to right.\<close>

fun replaceSlashSlash :: "string \<Rightarrow> string" where
  "replaceSlashSlash (a # b # r) =
     (if a = CHR ''/'' \<and> b = CHR ''/'' then CHR ''/'' # replaceSlashSlash r
      else a # replaceSlashSlash (b # r))"
| "replaceSlashSlash p = p"

lemma replaceSlashSlash_length_le: "length (replaceSlashSlash p) \<le> length p"
  by (induction p rule: replaceSlashSlash.induct) auto

lemma replaceSlashSlash_shrinks:
  "containsSlashSlash p \<Longrightarrow> length (replaceSlashSlash p) < length p"
proof (induction p rule: replaceSlashSlash.induct)
  case (1 a b r)
  show ?case
  proof (cases "a = CHR ''/'' \<and> b = CHR ''/''")
    case True
    have "length (replaceSlashSlash r) \<le> length r"
      by (rule replaceSlashSlash_length_le)
    with True show ?thesis by simp
  next
    case False
    with 1 show ?thesis by auto
  qed
qed simp_all

text \<open>\<open>for strings.Contains(p, "//") { p = strings.ReplaceAll(p, "//", "/") }\<close>\<close>

function collapseSlashes :: "string \<Rightarrow> string" where
  "collapseSlashes p =
     (if containsSlashSlash p then collapseSlashes (replaceSlashSlash p) else p)"
  by pat_completeness auto
termination
  by (relation "measure length") (auto simp: replaceSlashSlash_shrinks)

declare collapseSlashes.simps [simp del]

text \<open>\<open>strings.Split(p, "/")\<close>; the result is never empty, \<open>Split("", "/")\<close> is \<open>[""]\<close>.\<close>

fun splitOn :: "char \<Rightarrow> string \<Rightarrow> string list" where
  "splitOn c [] = [[]]"
| "splitOn c (x # xs) =
     (let r = splitOn c xs in if x = c then [] # r else (x # hd r) # tl r)"

definition splitPath :: "string \<Rightarrow> string list" where
  "splitPath path =
     (if path = [] then [[]]
      else
        let p = trimBlanks path;
            p = cutAtByte (CHR ''?'') p;
            p = cutAtByte (CHR ''#'') p;
            p = collapseSlashes p
        in if p = ''/'' then [[]]
           else
             let p = (if p \<noteq> [] \<and> hd p \<noteq> CHR ''/'' then CHR ''/'' # p else p);
                 segs = splitOn (CHR ''/'') p
             in if segs \<noteq> [] \<and> hd segs = [] then tl segs else segs)"

text \<open>\<open>strings.Join(segs, "/")\<close>\<close>

fun joinSlash :: "string list \<Rightarrow> string" where
  "joinSlash [] = []"
| "joinSlash [s] = s"
| "joinSlash (s # t # r) = s @ CHR ''/'' # joinSlash (t # r)"

subsection \<open>Nodes\<close>

datatype NodeType = Static | Param | Wildcard

text \<open>
  \<open>node[T]\<close>. The \<open>children\<close> map is a finite map; a nil pointer is \<open>None\<close>. The node's
  value mutex is not part of the sequential model.
\<close>

datatype 'a node = Node
  (segment: string)
  (typeOf: NodeType)
  (children: "(string, 'a node) fmap")
  (paramName: string)
  (paramChild: "'a node option")
  (wildName: string)
  (wildChild: "'a node option")
  (val: "'a option")
  (fullPath: string)

definition setChildren :: "(string, 'a node) fmap \<Rightarrow> 'a node \<Rightarrow> 'a node" where
  "setChildren ch n =
     Node (segment n) (typeOf n) ch (paramName n) (paramChild n) (wildName n) (wildChild n)
       (val n) (fullPath n)"

definition setParamChild :: "'a node option \<Rightarrow> 'a node \<Rightarrow> 'a node" where
  "setParamChild pc n =
     Node (segment n) (typeOf n) (children n) (paramName n) pc (wildName n) (wildChild n)
       (val n) (fullPath n)"

definition setWildChild :: "'a node option \<Rightarrow> 'a node \<Rightarrow> 'a node" where
  "setWildChild wc n =
     Node (segment n) (typeOf n) (children n) (paramName n) (paramChild n) (wildName n) wc
       (val n) (fullPath n)"

definition setValue :: "'a option \<Rightarrow> string \<Rightarrow> 'a node \<Rightarrow> 'a node" where
  "setValue v fp n =
     Node (segment n) (typeOf n) (children n) (paramName n) (paramChild n) (wildName n)
       (wildChild n) v fp"

text \<open>The three node literals of \<open>Insert\<close>, and the root of \<open>NewRouteTree\<close>.\<close>

definition newStatic :: "string \<Rightarrow> 'a node" where
  "newStatic seg = Node seg Static fmempty [] None [] None None []"

definition newParam :: "string \<Rightarrow> string \<Rightarrow> 'a node" where
  "newParam seg name = Node seg Param fmempty name None [] None None []"

definition newWild :: "string \<Rightarrow> string \<Rightarrow> 'a node" where
  "newWild seg name = Node seg Wildcard fmempty [] None name None None []"

definition NewRouteTree :: "'a node" where
  "NewRouteTree = Node [] Static fmempty [] None [] None None []"

subsection \<open>Insert\<close>

text \<open>One constructor for each \<open>errors.New\<close> of \<open>Insert\<close>, in the order of the source.\<close>

datatype tree_error =
    ErrPathMustStartWithSlash
  | ErrParamNameEmpty
  | ErrWildcardAndParam
  | ErrDifferentParamNames
  | ErrWildcardNameEmpty
  | ErrWildcardNotLast
  | ErrWildcardCoexist

text \<open>
  The loop of \<open>Insert\<close> over the segments, from the node \<open>cur\<close>. The source mutates the
  nodes in place while it descends, so what it has linked before an error return stays in
  the tree: the function returns the tree also with an error. \<open>rest = []\<close> is the source's
  \<open>i = len(segs) - 1\<close>.
\<close>

fun insertSegs :: "string list \<Rightarrow> string \<Rightarrow> 'a \<Rightarrow> 'a node \<Rightarrow> tree_error option \<times> 'a node" where
  "insertSegs [] path v cur = (None, setValue (Some v) path cur)"
| "insertSegs (seg # rest) path v cur =
     (if seg = [] then insertSegs rest path v cur
      else if hd seg = CHR '':'' then
        (let name = tl seg in
         if name = [] then (Some ErrParamNameEmpty, cur)
         else if wildChild cur \<noteq> None then (Some ErrWildcardAndParam, cur)
         else
           let pc = (case paramChild cur of None \<Rightarrow> newParam seg name | Some c \<Rightarrow> c) in
           if paramName pc \<noteq> name
           then (Some ErrDifferentParamNames, setParamChild (Some pc) cur)
           else
             let (e, pc') = insertSegs rest path v pc
             in (e, setParamChild (Some pc') cur))
      else if hd seg = CHR ''*'' then
        (let name = tl seg in
         if name = [] then (Some ErrWildcardNameEmpty, cur)
         else if rest \<noteq> [] then (Some ErrWildcardNotLast, cur)
         else if children cur \<noteq> fmempty \<or> paramChild cur \<noteq> None
         then (Some ErrWildcardCoexist, cur)
         else
           let wc = (case wildChild cur of None \<Rightarrow> newWild seg name | Some c \<Rightarrow> c);
               (e, wc') = insertSegs rest path v wc
           in (e, setWildChild (Some wc') cur))
      else
        (let child = (case fmlookup (children cur) seg of
                        None \<Rightarrow> newStatic seg | Some c \<Rightarrow> c);
             (e, child') = insertSegs rest path v child
         in (e, setChildren (fmupd seg child' (children cur)) cur)))"

definition Insert :: "string \<Rightarrow> 'a \<Rightarrow> 'a node \<Rightarrow> tree_error option \<times> 'a node" where
  "Insert path v root =
     (if path = [] \<or> hd path \<noteq> CHR ''/'' then (Some ErrPathMustStartWithSlash, root)
      else insertSegs (splitPath path) path v root)"

subsection \<open>Lookup\<close>

text \<open>
  The loop of \<open>Lookup\<close>: static before parameter before wildcard, no backtracking. At a
  wildcard the source joins \<open>segs[i:]\<close> and leaves the loop.
\<close>

fun lookupSegs ::
  "string list \<Rightarrow> (string \<rightharpoonup> string) \<Rightarrow> 'a node \<Rightarrow> ('a \<times> (string \<rightharpoonup> string)) option" where
  "lookupSegs [] params cur =
     (case val cur of None \<Rightarrow> None | Some v \<Rightarrow> Some (v, params))"
| "lookupSegs (seg # rest) params cur =
     (if seg = [] then lookupSegs rest params cur
      else case fmlookup (children cur) seg of
        Some child \<Rightarrow> lookupSegs rest params child
      | None \<Rightarrow>
         (case paramChild cur of
            Some pc \<Rightarrow> lookupSegs rest (params(paramName pc \<mapsto> seg)) pc
          | None \<Rightarrow>
             (case wildChild cur of
                Some wc \<Rightarrow> lookupSegs [] (params(wildName wc \<mapsto> joinSlash (seg # rest))) wc
              | None \<Rightarrow> None)))"

definition Lookup :: "string \<Rightarrow> 'a node \<Rightarrow> ('a \<times> (string \<rightharpoonup> string)) option" where
  "Lookup path root =
     (if path = [] \<or> hd path \<noteq> CHR ''/'' then None
      else lookupSegs (splitPath path) Map.empty root)"

subsection \<open>Delete\<close>

text \<open>
  The condition of the compaction loop:
  \<open>n.value == nil && len(n.children) == 0 && n.paramChild == nil && n.wildChild == nil\<close>.
\<close>

definition isBare :: "'a node \<Rightarrow> bool" where
  "isBare n \<longleftrightarrow>
     val n = None \<and> children n = fmempty \<and> paramChild n = None \<and> wildChild n = None"

text \<open>
  The body of the compaction loop: the parent drops the link that the recorded key names,
  by the key's first byte.
\<close>

definition unlink :: "string \<Rightarrow> 'a node \<Rightarrow> 'a node" where
  "unlink key p =
     (if key \<noteq> [] \<and> hd key = CHR '':'' then setParamChild None p
      else if key \<noteq> [] \<and> hd key = CHR ''*'' then setWildChild None p
      else setChildren (fmdrop key (children p)) p)"

text \<open>
  \<open>Delete\<close> walks down as \<open>Lookup\<close> does, pushing the nodes and their keys on a stack,
  clears the value of the node it reaches and then, when that node had a value, walks the
  stack back up and unlinks every bare node from its parent. The recursion returns from the
  child before it looks at the child, which is the order of the source's second loop. The
  first component is the source's result.
\<close>

fun deleteSegs :: "string list \<Rightarrow> 'a node \<Rightarrow> bool \<times> 'a node" where
  "deleteSegs [] cur = (val cur \<noteq> None, setValue None [] cur)"
| "deleteSegs (seg # rest) cur =
     (if seg = [] then deleteSegs rest cur
      else case fmlookup (children cur) seg of
        Some child \<Rightarrow>
          (let (had, child') = deleteSegs rest child;
               cur' = setChildren (fmupd seg child' (children cur)) cur
           in (had, if had \<and> isBare child' then unlink seg cur' else cur'))
      | None \<Rightarrow>
         (case paramChild cur of
            Some pc \<Rightarrow>
              (let (had, pc') = deleteSegs rest pc;
                   cur' = setParamChild (Some pc') cur
               in (had, if had \<and> isBare pc' then unlink (CHR '':'' # paramName pc') cur'
                        else cur'))
          | None \<Rightarrow>
             (case wildChild cur of
                Some wc \<Rightarrow>
                  (let (had, wc') = deleteSegs [] wc;
                       cur' = setWildChild (Some wc') cur
                   in (had, if had \<and> isBare wc' then unlink (CHR ''*'' # wildName wc') cur'
                            else cur'))
              | None \<Rightarrow> (False, cur))))"

definition Delete :: "string \<Rightarrow> 'a node \<Rightarrow> bool \<times> 'a node" where
  "Delete path root =
     (if path = [] \<or> hd path \<noteq> CHR ''/'' then (False, root)
      else deleteSegs (splitPath path) root)"

section \<open>Service pool (servicepool.go)\<close>

record ServiceInstance =
  Address :: string
  Port :: int
  Addr :: string

text \<open>
  \<open>ServicePool\<close>. A value of the \<open>invokers\<close> map is a pointer that may be nil
  (\<open>Some None\<close>); \<open>counter\<close> is an \<open>int64\<close>.
\<close>

record 'inv ServicePool =
  serviceName :: string
  invokers :: "string \<rightharpoonup> 'inv option"
  instances :: "ServiceInstance list"
  counter :: "64 word"

datatype pool_error = NoAvailableInstances | NoInvokerAvailable string

text \<open>
  What a call of \<open>getNextInvoker\<close> ends with: the invoker, the error, or the run-time
  panic of a slice index out of range (with the index).
\<close>

datatype 'inv selection = Selected 'inv | Failed pool_error | IndexOutOfRange int

text \<open>
  \<open>idx := int((start + int64(i)) % int64(n))\<close>: the addition wraps, and Go's \<open>%\<close>
  truncates towards zero (\<open>smod\<close> on the signed values), so that the index has the sign
  of the dividend. The remainder is smaller in size than the divisor, so it is the same
  \<open>int64\<close> and the same \<open>int\<close>.
\<close>

definition slotIndex :: "64 word \<Rightarrow> nat \<Rightarrow> nat \<Rightarrow> int" where
  "slotIndex start i n = sint (start + of_nat i) smod sint (of_nat n :: 64 word)"

fun scanSlots :: "'inv ServicePool \<Rightarrow> 64 word \<Rightarrow> nat \<Rightarrow> nat list \<Rightarrow> 'inv selection" where
  "scanSlots pool start n [] = Failed (NoInvokerAvailable (serviceName pool))"
| "scanSlots pool start n (i # is) =
     (let idx = slotIndex start i n in
      if idx < 0 \<or> int (length (instances pool)) \<le> idx then IndexOutOfRange idx
      else
        case invokers pool (Addr (instances pool ! nat idx)) of
          Some (Some invoker) \<Rightarrow> Selected invoker
        | _ \<Rightarrow> scanSlots pool start n is)"

text \<open>\<open>atomic.AddInt64(&pool.counter, 1)\<close> returns the new value and stores it.\<close>

definition getNextInvoker :: "'inv ServicePool \<Rightarrow> 'inv selection \<times> 'inv ServicePool" where
  "getNextInvoker pool =
     (if length (instances pool) = 0 then (Failed NoAvailableInstances, pool)
      else
        let start = counter pool + 1;
            pool' = pool\<lparr>counter := start\<rparr>;
            n = length (instances pool)
        in (scanSlots pool' start n [0..<n], pool'))"

section \<open>Error mapping of the request pipeline\<close>

text \<open>
  \<open>codes.Code\<close> is a \<open>uint32\<close>; the named codes are the constants of the gRPC library,
  the HTTP statuses those of \<open>net/http\<close>.
\<close>

type_synonym Code = "32 word"

definition OK :: Code where "OK = 0"
definition Canceled :: Code where "Canceled = 1"
definition Unknown :: Code where "Unknown = 2"
definition InvalidArgument :: Code where "InvalidArgument = 3"
definition DeadlineExceeded :: Code where "DeadlineExceeded = 4"
definition NotFound :: Code where "NotFound = 5"
definition AlreadyExists :: Code where "AlreadyExists = 6"
definition PermissionDenied :: Code where "PermissionDenied = 7"
definition ResourceExhausted :: Code where "ResourceExhausted = 8"
definition FailedPrecondition :: Code where "FailedPrecondition = 9"
definition Aborted :: Code where "Aborted = 10"
definition OutOfRange :: Code where "OutOfRange = 11"
definition Unimplemented :: Code where "Unimplemented = 12"
definition Internal :: Code where "Internal = 13"
definition Unavailable :: Code where "Unavailable = 14"
definition DataLoss :: Code where "DataLoss = 15"
definition Unauthenticated :: Code where "Unauthenticated = 16"

lemmas code_defs =
  OK_def Canceled_def Unknown_def InvalidArgument_def DeadlineExceeded_def NotFound_def
  AlreadyExists_def PermissionDenied_def ResourceExhausted_def FailedPrecondition_def
  Aborted_def OutOfRange_def Unimplemented_def Internal_def Unavailable_def DataLoss_def
  Unauthenticated_def

definition StatusOK :: int where "StatusOK = 200"
definition StatusBadRequest :: int where "StatusBadRequest = 400"
definition StatusUnauthorized :: int where "StatusUnauthorized = 401"
definition StatusForbidden :: int where "StatusForbidden = 403"
definition StatusNotFound :: int where "StatusNotFound = 404"
definition StatusRequestTimeout :: int where "StatusRequestTimeout = 408"
definition StatusConflict :: int where "StatusConflict = 409"
definition StatusTooManyRequests :: int where "StatusTooManyRequests = 429"
definition StatusInternalServerError :: int where "StatusInternalServerError = 500"
definition StatusNotImplemented :: int where "StatusNotImplemented = 501"
definition StatusServiceUnavailable :: int where "StatusServiceUnavailable = 503"

lemmas status_defs =
  StatusOK_def StatusBadRequest_def StatusUnauthorized_def StatusForbidden_def
  StatusNotFound_def StatusRequestTimeout_def StatusConflict_def StatusTooManyRequests_def
  StatusInternalServerError_def StatusNotImplemented_def StatusServiceUnavailable_def

definition mapGRPCCodeToHTTP :: "Code \<Rightarrow> int" where
  "mapGRPCCodeToHTTP code =
     (if code = OK then StatusOK
      else if code = Canceled then StatusRequestTimeout
      else if code = Unknown then StatusInternalServerError
      else if code = InvalidArgument then StatusBadRequest
      else if code = DeadlineExceeded then StatusRequestTimeout
      else if code = NotFound then StatusNotFound
      else if code = AlreadyExists then StatusConflict
      else if code = PermissionDenied then StatusForbidden
      else if code = ResourceExhausted then StatusTooManyRequests
      else if code = FailedPrecondition then StatusBadRequest
      else if code = Aborted then StatusConflict
      else if code = OutOfRange then StatusBadRequest
      else if code = Unimplemented then StatusNotImplemented
      else if code = Internal then StatusInternalServerError
      else if code = Unavailable then StatusServiceUnavailable
      else if code = DataLoss then StatusInternalServerError
      else if code = Unauthenticated then StatusUnauthorized
      else StatusOK)"

text \<open>
  The error an invoker returns: one that carries a gRPC status (\<open>status.FromError\<close>
  answers \<open>ok\<close> with its code and message), or any other error with its text.
\<close>

datatype invoke_error = StatusError Code string | OtherError string

text \<open>\<open>Result\<close>, the response envelope; \<open>Data\<close> is \<open>nil\<close> in every error envelope.\<close>

record 'd Result =
  Code :: int
  Msg :: string
  Data :: "'d option"

definition mapErrorToHTTP :: "invoke_error \<Rightarrow> int \<times> 'd Result" where
  "mapErrorToHTTP err =
     (case err of
        StatusError code msg \<Rightarrow>
          (mapGRPCCodeToHTTP code, \<lparr>Code = uint code, Msg = msg, Data = None\<rparr>)
      | OtherError text \<Rightarrow>
          (StatusInternalServerError, \<lparr>Code = - 1, Msg = text, Data = None\<rparr>))"

section \<open>Payload composition (grpcinvoker.go)\<close>

text \<open>
  The dynamic values a \<open>map[string]any\<close> of the payload holds: nil, a bool, a number
  (\<open>float64\<close>, kept abstract as \<open>'n\<close>), a string, a \<open>[]string\<close> (a repeated query
  parameter), a \<open>[]any\<close> and a \<open>map[string]any\<close>.
\<close>

datatype 'n any =
    ANil
  | ABool bool
  | ANumber 'n
  | AString string
  | AStrings "string list"
  | AArray "'n any list"
  | AObject "string \<Rightarrow> 'n any option"

text \<open>
  What \<open>BuildRequestJSON\<close> reads of the \<open>http.Request\<close>: the method, the parsed query
  \<open>r.URL.Query()\<close> and what \<open>io.ReadAll(r.Body)\<close> gives, an error or the bytes.
\<close>

record Request =
  reqMethod :: string
  reqQuery :: "string \<rightharpoonup> string list"
  reqBody :: "string + string"

text \<open>
  The JSON library is not part of the repository: its three uses are parameters.
  \<open>unmarshalMap\<close> is \<open>sonic.Unmarshal\<close> into a \<open>map[string]any\<close>, \<open>unmarshalAny\<close> into
  an \<open>any\<close>, \<open>marshal\<close> is \<open>sonic.Marshal\<close> of the request map.
\<close>

record 'n codec =
  unmarshalMap :: "string \<Rightarrow> string + (string \<rightharpoonup> 'n any)"
  unmarshalAny :: "string \<Rightarrow> string + 'n any"
  marshal :: "(string \<rightharpoonup> 'n any) \<Rightarrow> string + string"

datatype build_error = ReadBodyFailed string | UnmarshalBodyFailed string | MarshalFailed string

text \<open>The branch of the query loop: \<open>values[0]\<close> when there is one value, else the slice.\<close>

definition queryValue :: "string list \<Rightarrow> 'n any" where
  "queryValue values = (if length values = 1 then AString (hd values) else AStrings values)"

definition marshalPayload :: "'n codec \<Rightarrow> (string \<rightharpoonup> 'n any) \<Rightarrow> build_error + string" where
  "marshalPayload c requestMap =
     (case marshal c requestMap of Inl e \<Rightarrow> Inl (MarshalFailed e) | Inr bytes \<Rightarrow> Inr bytes)"

text \<open>
  A \<open>range\<close> loop that stores every entry of a map \<open>m\<close> into \<open>requestMap\<close> gives
  \<open>requestMap ++ m\<close>: the keys of \<open>m\<close> are distinct, so the order of the iteration does not
  show.
\<close>

definition BuildRequestJSON ::
  "'n codec \<Rightarrow> Request \<Rightarrow> (string \<rightharpoonup> string) \<Rightarrow> string \<Rightarrow> build_error + string" where
  "BuildRequestJSON c r pathParams bodyField =
     (let requestMap = Map.empty ++ (map_option AString \<circ> pathParams);
          requestMap = requestMap ++ (map_option queryValue \<circ> reqQuery r)
      in if reqMethod r \<noteq> ''GET'' \<and> reqMethod r \<noteq> ''DELETE'' then
           (case reqBody r of
              Inl e \<Rightarrow> Inl (ReadBodyFailed e)
            | Inr body \<Rightarrow>
                if length body > 0 then
                  (if bodyField = ''*'' then
                     (case unmarshalMap c body of
                        Inl e \<Rightarrow> Inl (UnmarshalBodyFailed e)
                      | Inr bodyMap \<Rightarrow> marshalPayload c (requestMap ++ bodyMap))
                   else if bodyField \<noteq> [] then
                     (case unmarshalAny c body of
                        Inl e \<Rightarrow> Inl (UnmarshalBodyFailed e)
                      | Inr bodyData \<Rightarrow> marshalPayload c (requestMap(bodyField \<mapsto> bodyData)))
                   else marshalPayload c requestMap)
                else marshalPayload c requestMap)
         else marshalPayload c requestMap)"

section \<open>Discovery watcher (types.go, watcher.go)\<close>

record 'fds ServiceMetadata =
  ServiceName :: string
  Descriptor :: "'fds option"
  DescriptorData :: string
  Version :: string
  Metadata :: "string \<rightharpoonup> string"

text \<open>\<open>ServiceInfo\<close> embeds the metadata pointer; here it is the field \<open>meta\<close>.\<close>

record 'fds ServiceInfo =
  meta :: "'fds ServiceMetadata"
  Instances :: "ServiceInstance list"

datatype EventType = EventAdd | EventDelete | EventUpdate

record 'fds ServiceEvent =
  Type :: EventType
  Service :: "'fds ServiceInfo"

text \<open>An event of the store's watch: its type and the key and value of its \<open>Kv\<close>.\<close>

datatype KvEventType = EventTypePut | EventTypeDelete

record KvEvent =
  KvType :: KvEventType
  Key :: string
  Value :: string

text \<open>
  The watcher's data. \<open>eventChan\<close> holds the events sent so far, in the order of the
  sends; a missing key of \<open>instancesMap\<close> is the nil slice.
\<close>

record 'fds Watcher =
  serviceMetadataPrefix :: string
  serviceDiscoveryPrefix :: string
  metadataMap :: "string \<rightharpoonup> 'fds ServiceMetadata"
  instancesMap :: "string \<rightharpoonup> ServiceInstance list"
  initialLoading :: bool
  eventChan :: "'fds ServiceEvent list"

text \<open>\<open>strings.TrimSuffix(s, "/")\<close>\<close>

definition trimSuffixSlash :: "string \<Rightarrow> string" where
  "trimSuffixSlash s = (if s \<noteq> [] \<and> last s = CHR ''/'' then butlast s else s)"

text \<open>\<open>strings.HasPrefix(s, p)\<close>\<close>

definition hasPrefix :: "string \<Rightarrow> string \<Rightarrow> bool" where
  "hasPrefix s p \<longleftrightarrow> take (length p) s = p"

definition extractServiceNameFromMetadata :: "'fds Watcher \<Rightarrow> string \<Rightarrow> string" where
  "extractServiceNameFromMetadata w key =
     (if \<not> hasPrefix key (serviceMetadataPrefix w) then []
      else trimSuffixSlash (drop (length (serviceMetadataPrefix w)) key))"

text \<open>
  \<open>parseServiceMetadata\<close>; \<open>json.Unmarshal\<close> into a \<open>ServiceMetadata\<close> and
  \<open>proto.Unmarshal\<close> into a \<open>FileDescriptorSet\<close> are parameters.
\<close>

definition parseServiceMetadata ::
  "(string \<Rightarrow> string + 'fds ServiceMetadata) \<Rightarrow> (string \<Rightarrow> string + 'fds) \<Rightarrow> string
     \<Rightarrow> string + 'fds ServiceMetadata" where
  "parseServiceMetadata jsonUnmarshal protoUnmarshal data =
     (case jsonUnmarshal data of
        Inl e \<Rightarrow> Inl e
      | Inr metadata \<Rightarrow>
          if length (DescriptorData metadata) > 0 then
            (case protoUnmarshal (DescriptorData metadata) of
               Inl e \<Rightarrow> Inl e
             | Inr fds \<Rightarrow> Inr (metadata\<lparr>Descriptor := Some fds\<rparr>))
          else Inr metadata)"

definition send :: "'fds ServiceEvent \<Rightarrow> 'fds Watcher \<Rightarrow> 'fds Watcher" where
  "send e w = w\<lparr>eventChan := eventChan w @ [e]\<rparr>"

definition handleMetadataEvent ::
  "(string \<Rightarrow> string + 'fds ServiceMetadata) \<Rightarrow> (string \<Rightarrow> string + 'fds) \<Rightarrow> 'fds Watcher
     \<Rightarrow> KvEvent \<Rightarrow> 'fds Watcher" where
  "handleMetadataEvent jsonUnmarshal protoUnmarshal w event =
     (let key = Key event;
          name = extractServiceNameFromMetadata w key
      in if name = [] then w
         else
           case KvType event of
             EventTypePut \<Rightarrow>
               (case parseServiceMetadata jsonUnmarshal protoUnmarshal (Value event) of
                  Inl err \<Rightarrow> w
                | Inr metadata \<Rightarrow>
                    let w1 = w\<lparr>metadataMap := (metadataMap w)(name \<mapsto> metadata)\<rparr>;
                        insts = (case instancesMap w1 name of None \<Rightarrow> [] | Some l \<Rightarrow> l);
                        serviceInfo = \<lparr>meta = metadata, Instances = insts\<rparr>
                    in if initialLoading w1 then w1
                       else send \<lparr>Type = EventUpdate, Service = serviceInfo\<rparr> w1)
           | EventTypeDelete \<Rightarrow>
               (case metadataMap w name of
                  None \<Rightarrow> w
                | Some metadata \<Rightarrow>
                    let w1 = w\<lparr>metadataMap := (metadataMap w)(name := None)\<rparr>;
                        insts = (case instancesMap w1 name of None \<Rightarrow> [] | Some l \<Rightarrow> l)
                    in if length insts = 0
                       then send \<lparr>Type = EventDelete,
                                  Service = \<lparr>meta = metadata, Instances = insts\<rparr>\<rparr> w1
                       else w1))"

section \<open>HTTP rules (httprule.go)\<close>

record HTTPRule =
  Method :: string
  Path :: string
  Body :: string

text \<open>
  The \<open>google.api.http\<close> annotation of a method: its pattern (\<open>NoPattern\<close> is a pattern
  that is none of the six known types), its body and its additional bindings.
\<close>

datatype pattern =
    HttpRule_Get string
  | HttpRule_Post string
  | HttpRule_Put string
  | HttpRule_Delete string
  | HttpRule_Patch string
  | HttpRule_Custom string string
  | NoPattern

datatype annotation = Annotation (Pattern: pattern) (RuleBody: string)
  (AdditionalBindings: "annotation list")

datatype rule_error = UnknownPatternType

definition parseHTTPRule :: "annotation option \<Rightarrow> rule_error + HTTPRule option" where
  "parseHTTPRule rule =
     (case rule of
        None \<Rightarrow> Inr None
      | Some a \<Rightarrow>
         (case Pattern a of
            HttpRule_Get p \<Rightarrow> Inr (Some \<lparr>Method = ''GET'', Path = p, Body = RuleBody a\<rparr>)
          | HttpRule_Post p \<Rightarrow> Inr (Some \<lparr>Method = ''POST'', Path = p, Body = RuleBody a\<rparr>)
          | HttpRule_Put p \<Rightarrow> Inr (Some \<lparr>Method = ''PUT'', Path = p, Body = RuleBody a\<rparr>)
          | HttpRule_Delete p \<Rightarrow> Inr (Some \<lparr>Method = ''DELETE'', Path = p, Body = RuleBody a\<rparr>)
          | HttpRule_Patch p \<Rightarrow> Inr (Some \<lparr>Method = ''PATCH'', Path = p, Body = RuleBody a\<rparr>)
          | HttpRule_Custom kind p \<Rightarrow> Inr (Some \<lparr>Method = kind, Path = p, Body = RuleBody a\<rparr>)
          | NoPattern \<Rightarrow> Inl UnknownPatternType))"

fun parseBindings :: "annotation list \<Rightarrow> HTTPRule list \<Rightarrow> rule_error + HTTPRule list" where
  "parseBindings [] rules = Inr rules"
| "parseBindings (a # rest) rules =
     (case parseHTTPRule (Some a) of
        Inl e \<Rightarrow> Inl e
      | Inr None \<Rightarrow> parseBindings rest rules
      | Inr (Some rule) \<Rightarrow> parseBindings rest (rules @ [rule]))"

text \<open>
  A method descriptor: its name and its HTTP annotation, \<open>None\<close> when the method has no
  options, no \<open>google.api.http\<close> extension, or an extension of another type.
\<close>

record MethodDescriptor =
  Name :: string
  HttpOption :: "annotation option"

definition ExtractHTTPRules :: "MethodDescriptor \<Rightarrow> rule_error + HTTPRule list" where
  "ExtractHTTPRules method =
     (case HttpOption method of
        None \<Rightarrow> Inr []
      | Some httpRule \<Rightarrow>
         (case parseHTTPRule (Some httpRule) of
            Inl e \<Rightarrow> Inl e
          | Inr mainRule \<Rightarrow>
              parseBindings (AdditionalBindings httpRule)
                (case mainRule of None \<Rightarrow> [] | Some rule \<Rightarrow> [rule])))"

section \<open>Route registry (router.go)\<close>

record ServiceDescriptor =
  FullyQualifiedName :: string
  Methods :: "MethodDescriptor list"

record FileDescriptor =
  Services :: "ServiceDescriptor list"

record Route =
  RouteServiceName :: string
  MethodName :: string
  FullMethod :: string
  MethodDesc :: MethodDescriptor
  HttpRule :: HTTPRule

record 'inv HTTPRouter =
  routerTree :: "Route node"
  servicePools :: "string \<rightharpoonup> 'inv ServicePool"
  routeIndex :: "string \<rightharpoonup> string set"
  pathIndex :: "string set"

definition NewHTTPRouter :: "'inv HTTPRouter" where
  "NewHTTPRouter =
     \<lparr>routerTree = NewRouteTree, servicePools = Map.empty, routeIndex = Map.empty,
      pathIndex = {}\<rparr>"

text \<open>
  What the registry takes from outside the repository: \<open>strings.TrimSpace\<close>,
  \<open>strings.ToUpper\<close>, \<open>path.Clean\<close>, the construction of an invoker (a connection and the
  file descriptors of the service's descriptor set, or an error), and the order in which
  a \<open>range\<close> loop meets the keys of a set.
\<close>

record ('inv, 'fds) env =
  TrimSpace :: "string \<Rightarrow> string"
  ToUpper :: "string \<Rightarrow> string"
  Clean :: "string \<Rightarrow> string"
  NewGRPCInvoker :: "string \<Rightarrow> 'fds option \<Rightarrow> string + ('inv \<times> FileDescriptor list)"
  rangeOrder :: "string set \<Rightarrow> string list"

text \<open>\<open>strings.TrimPrefix(s, "/")\<close>\<close>

definition trimPrefixSlash :: "string \<Rightarrow> string" where
  "trimPrefixSlash s = (if s \<noteq> [] \<and> hd s = CHR ''/'' then tl s else s)"

text \<open>\<open>normalizePath\<close>: \<open>fmt.Sprintf("/[%s]%s", m, clean)\<close>\<close>

definition normalizePath :: "('inv, 'fds) env \<Rightarrow> string \<Rightarrow> string \<Rightarrow> string" where
  "normalizePath env method p =
     (let m = ToUpper env (TrimSpace env method);
          clean = TrimSpace env p;
          clean = trimPrefixSlash clean;
          clean = Clean env (CHR ''/'' # clean)
      in ''/['' @ m @ '']'' @ clean)"

datatype router_error = InvalidServiceInfo

text \<open>The loop that creates the missing invokers and keeps the first descriptors.\<close>

fun createInvokers ::
  "('inv, 'fds) env \<Rightarrow> bool \<Rightarrow> 'fds option \<Rightarrow> ServiceInstance list
     \<Rightarrow> (string \<rightharpoonup> 'inv option) \<times> FileDescriptor list
     \<Rightarrow> (string \<rightharpoonup> 'inv option) \<times> FileDescriptor list" where
  "createInvokers env need d [] acc = acc"
| "createInvokers env need d (inst # rest) (created, firstFileDescs) =
     (case NewGRPCInvoker env (Addr inst) d of
        Inl err \<Rightarrow> createInvokers env need d rest (created, firstFileDescs)
      | Inr (invoker, fileDescs) \<Rightarrow>
          createInvokers env need d rest
            (created(Addr inst \<mapsto> Some invoker),
             if need \<and> firstFileDescs = [] \<and> length fileDescs > 0 then fileDescs
             else firstFileDescs))"

text \<open>
  The body of the innermost loop of \<open>RegisterService\<close>, one HTTP rule of one method. A
  failed \<open>Insert\<close> leaves the indexes alone, but not the nodes it has linked.
\<close>

definition registerRule ::
  "('inv, 'fds) env \<Rightarrow> string \<Rightarrow> ServiceDescriptor \<Rightarrow> MethodDescriptor \<Rightarrow> 'inv HTTPRouter
     \<Rightarrow> HTTPRule \<Rightarrow> 'inv HTTPRouter" where
  "registerRule env name svc method r httpRule =
     (let pathKey = normalizePath env (Method httpRule) (Path httpRule) in
      if pathKey \<in> pathIndex r then r
      else
        case Insert pathKey
               \<lparr>RouteServiceName = name, MethodName = Name method,
                FullMethod = FullyQualifiedName svc @ ''/'' @ Name method,
                MethodDesc = method, HttpRule = httpRule\<rparr>
               (routerTree r) of
          (Some err, t) \<Rightarrow> r\<lparr>routerTree := t\<rparr>
        | (None, t) \<Rightarrow>
            r\<lparr>routerTree := t,
              routeIndex := (routeIndex r)
                (name \<mapsto> insert pathKey (case routeIndex r name of None \<Rightarrow> {} | Some ks \<Rightarrow> ks)),
              pathIndex := insert pathKey (pathIndex r)\<rparr>)"

definition registerMethod ::
  "('inv, 'fds) env \<Rightarrow> string \<Rightarrow> ServiceDescriptor \<Rightarrow> 'inv HTTPRouter \<Rightarrow> MethodDescriptor
     \<Rightarrow> 'inv HTTPRouter" where
  "registerMethod env name svc r method =
     (case ExtractHTTPRules method of
        Inl err \<Rightarrow> r
      | Inr httpRules \<Rightarrow> foldl (registerRule env name svc method) r httpRules)"

definition registerRoutes ::
  "('inv, 'fds) env \<Rightarrow> string \<Rightarrow> FileDescriptor list \<Rightarrow> 'inv HTTPRouter \<Rightarrow> 'inv HTTPRouter" where
  "registerRoutes env name fileDescs r =
     foldl (\<lambda>r fileDesc.
        foldl (\<lambda>r svc. foldl (registerMethod env name svc) r (Methods svc)) r
          (Services fileDesc))
       r fileDescs"

text \<open>
  \<open>RegisterService\<close>. The argument is \<open>None\<close> for a nil pointer. Closing the invokers of
  the instances that went away acts on connections only and is left out.
\<close>

definition RegisterService ::
  "('inv, 'fds) env \<Rightarrow> 'inv HTTPRouter \<Rightarrow> 'fds ServiceInfo option
     \<Rightarrow> router_error option \<times> 'inv HTTPRouter" where
  "RegisterService env r service =
     (case service of
        None \<Rightarrow> (Some InvalidServiceInfo, r)
      | Some svc \<Rightarrow>
          if TrimSpace env (ServiceName (meta svc)) = [] then (Some InvalidServiceInfo, r)
          else
            let name = ServiceName (meta svc);
                pool = (case servicePools r name of
                          None \<Rightarrow> \<lparr>serviceName = name, invokers = Map.empty, instances = [],
                                    counter = 0\<rparr>
                        | Some p \<Rightarrow> p);
                needRouteRegistration =
                  (case routeIndex r name of None \<Rightarrow> True | Some ks \<Rightarrow> ks = {});
                addrSet = Addr ` set (Instances svc);
                toCreate = filter (\<lambda>inst. invokers pool (Addr inst) = None) (Instances svc);
                (created, firstFileDescs) =
                  createInvokers env needRouteRegistration (Descriptor (meta svc)) toCreate
                    (Map.empty, []);
                pool' = pool\<lparr>instances := Instances svc,
                             invokers := (invokers pool ++ created) |` addrSet\<rparr>;
                r1 = r\<lparr>servicePools := (servicePools r)(name \<mapsto> pool')\<rparr>
            in if needRouteRegistration then
                 (if length firstFileDescs = 0 then (None, r1)
                  else (None, registerRoutes env name firstFileDescs r1))
               else (None, r1))"

text \<open>
  \<open>UnRegisterService\<close>. The loop over \<open>routeIndex[serviceName]\<close> meets the keys in the
  order \<open>rangeOrder\<close> gives; over a missing entry (a nil map) it does not run.
\<close>

definition removeRoute :: "string \<Rightarrow> 'inv HTTPRouter \<Rightarrow> 'inv HTTPRouter" where
  "removeRoute pathKey r =
     r\<lparr>routerTree := snd (Delete pathKey (routerTree r)),
       pathIndex := pathIndex r - {pathKey}\<rparr>"

definition UnRegisterService ::
  "('inv, 'fds) env \<Rightarrow> 'inv HTTPRouter \<Rightarrow> 'fds ServiceInfo option
     \<Rightarrow> router_error option \<times> 'inv HTTPRouter" where
  "UnRegisterService env r service =
     (case service of
        None \<Rightarrow> (Some InvalidServiceInfo, r)
      | Some svc \<Rightarrow>
          if TrimSpace env (ServiceName (meta svc)) = [] then (Some InvalidServiceInfo, r)
          else
            let name = ServiceName (meta svc);
                r1 = (case routeIndex r name of
                        None \<Rightarrow> r
                      | Some pathsSet \<Rightarrow> fold removeRoute (rangeOrder env pathsSet) r)
            in (None, r1\<lparr>servicePools := (servicePools r1)(name := None),
                          routeIndex := (routeIndex r1)(name := None)\<rparr>))"

section \<open>Definitions for the statements\<close>

text \<open>
  The definitions of this section are not translations of code: they are the words of the
  specification that the theorems compare the code with, the invariants of the route
  tree, and the concrete inputs of the examples.
\<close>

subsection \<open>Route tree\<close>

text \<open>
  A key of the \<open>children\<close> map as \<open>Insert\<close> makes them: not empty, and not starting
  with the mark of a parameter or of a wildcard.
\<close>

definition staticKey :: "string \<Rightarrow> bool" where
  "staticKey k \<longleftrightarrow> k \<noteq> [] \<and> hd k \<noteq> CHR '':'' \<and> hd k \<noteq> CHR ''*''"

text \<open>
  A tree is keyed when every key of every \<open>children\<close> map is a static key.
\<close>

inductive keyed :: "'a node \<Rightarrow> bool" where
  "(\<forall>k c. fmlookup (children n) k = Some c \<longrightarrow> staticKey k \<and> keyed c)
   \<Longrightarrow> (\<forall>c. paramChild n = Some c \<longrightarrow> keyed c)
   \<Longrightarrow> (\<forall>c. wildChild n = Some c \<longrightarrow> keyed c)
   \<Longrightarrow> keyed n"

text \<open>
  A tree is compacted when, moreover, no bare node (no value, no child) is linked below
  its root and a node without a value has the empty \<open>fullPath\<close>. A bare node stays
  behind when an \<open>Insert\<close> fails after it has linked new nodes.
\<close>

inductive compacted :: "'a node \<Rightarrow> bool" where
  "(\<forall>k c. fmlookup (children n) k = Some c \<longrightarrow> staticKey k \<and> \<not> isBare c \<and> compacted c)
   \<Longrightarrow> (\<forall>c. paramChild n = Some c \<longrightarrow> \<not> isBare c \<and> compacted c)
   \<Longrightarrow> (\<forall>c. wildChild n = Some c \<longrightarrow> \<not> isBare c \<and> compacted c)
   \<Longrightarrow> (val n = None \<longrightarrow> fullPath n = [])
   \<Longrightarrow> compacted n"

text \<open>
  The slot of a key: the node that \<open>Insert\<close> would write, found by the walk of
  \<open>Insert\<close> (a parameter segment goes to the parameter child, a wildcard segment to the
  wildcard child). The slot is taken when that node exists and holds a value.
\<close>

fun slotTaken :: "string list \<Rightarrow> 'a node \<Rightarrow> bool" where
  "slotTaken [] cur = (val cur \<noteq> None)"
| "slotTaken (seg # rest) cur =
     (if seg = [] then slotTaken rest cur
      else if hd seg = CHR '':'' then
        (case paramChild cur of None \<Rightarrow> False | Some c \<Rightarrow> slotTaken rest c)
      else if hd seg = CHR ''*'' then
        (case wildChild cur of None \<Rightarrow> False | Some c \<Rightarrow> slotTaken rest c)
      else
        (case fmlookup (children cur) seg of None \<Rightarrow> False | Some c \<Rightarrow> slotTaken rest c))"

text \<open>
  The trees that calls of \<open>Insert\<close> and \<open>Delete\<close> make of the empty tree: \<open>reached\<close>
  with every call, \<open>built\<close> with the calls of \<open>Insert\<close> that return no error and every
  call of \<open>Delete\<close>.
\<close>

inductive reached :: "'a node \<Rightarrow> bool" where
  "reached NewRouteTree"
| "reached t \<Longrightarrow> Insert k v t = (e, t') \<Longrightarrow> reached t'"
| "reached t \<Longrightarrow> Delete k t = (b, t') \<Longrightarrow> reached t'"

inductive built :: "'a node \<Rightarrow> bool" where
  "built NewRouteTree"
| "built t \<Longrightarrow> Insert k v t = (None, t') \<Longrightarrow> built t'"
| "built t \<Longrightarrow> Delete k t = (b, t') \<Longrightarrow> built t'"

definition treeA :: "nat node" where
  "treeA = snd (Insert ''/a'' 1 NewRouteTree)"

definition treeBare :: "nat node" where
  "treeBare = snd (Insert ''/a/:'' 1 NewRouteTree)"




subsection \<open>Round robin\<close>

text \<open>
  Visiting the slots of the instance list in a given order: the first slot whose address
  has a live invoker answers, and the no-invoker error when there is none.
\<close>

fun visitInOrder :: "'inv ServicePool \<Rightarrow> nat list \<Rightarrow> 'inv selection" where
  "visitInOrder pool [] = Failed (NoInvokerAvailable (serviceName pool))"
| "visitInOrder pool (j # js) =
     (case invokers pool (Addr (instances pool ! j)) of
        Some (Some invoker) \<Rightarrow> Selected invoker
      | _ \<Rightarrow> visitInOrder pool js)"

definition instA :: ServiceInstance where
  "instA = \<lparr>Address = ''10.0.0.1'', Port = 50051, Addr = ''10.0.0.1:50051''\<rparr>"
definition instB :: ServiceInstance where
  "instB = \<lparr>Address = ''10.0.0.2'', Port = 50051, Addr = ''10.0.0.2:50051''\<rparr>"
definition instC :: ServiceInstance where
  "instC = \<lparr>Address = ''10.0.0.3'', Port = 50051, Addr = ''10.0.0.3:50051''\<rparr>"

definition twoPool :: "nat ServicePool" where
  "twoPool =
     \<lparr>serviceName = ''user'',
      invokers = [''10.0.0.1:50051'' \<mapsto> Some 1, ''10.0.0.2:50051'' \<mapsto> Some 2],
      instances = [instA, instB], counter = 0\<rparr>"

definition wrappedPool :: "nat ServicePool" where
  "wrappedPool =
     \<lparr>serviceName = ''user'',
      invokers = [''10.0.0.1:50051'' \<mapsto> Some 1, ''10.0.0.2:50051'' \<mapsto> Some 2,
                  ''10.0.0.3:50051'' \<mapsto> Some 3],
      instances = [instA, instB, instC], counter = 0x7FFFFFFFFFFFFFFF\<rparr>"

subsection \<open>Payload composition\<close>

text \<open>
  The payload before the body is looked at, key by key: a query parameter wins over a
  path parameter of the same name; one query value is a string, any other number of
  values is the array.
\<close>

definition pathAndQuery ::
  "(string \<rightharpoonup> string) \<Rightarrow> (string \<rightharpoonup> string list) \<Rightarrow> (string \<rightharpoonup> 'n any)" where
  "pathAndQuery pathParams query k =
     (case query k of
        Some values \<Rightarrow> Some (if length values = 1 then AString (hd values) else AStrings values)
      | None \<Rightarrow> (case pathParams k of Some v \<Rightarrow> Some (AString v) | None \<Rightarrow> None))"

text \<open>
  A codec for the example: it decodes one body, and its \<open>marshal\<close> is left open.
\<close>

definition tomBody :: string where
  \<open>tomBody = ''{"name":"Tom","age":18}''\<close>

definition tomCodec :: "((string \<rightharpoonup> nat any) \<Rightarrow> string + string) \<Rightarrow> nat codec" where
  "tomCodec f =
     \<lparr>unmarshalMap = (\<lambda>b. if b = tomBody
                           then Inr [''name'' \<mapsto> AString ''Tom'', ''age'' \<mapsto> ANumber 18]
                           else Inl ''syntax error''),
      unmarshalAny = (\<lambda>b. Inl ''syntax error''),
      marshal = f\<rparr>"

definition tomRequest :: Request where
  "tomRequest =
     \<lparr>reqMethod = ''POST'', reqQuery = [''source'' \<mapsto> [''web'']],
      reqBody = Inr tomBody\<rparr>"

subsection \<open>Watcher\<close>

definition demoMetadata :: "unit ServiceMetadata" where
  "demoMetadata =
     \<lparr>ServiceName = ''user'', Descriptor = None, DescriptorData = [], Version = ''1'',
      Metadata = Map.empty\<rparr>"

definition demoWatcher :: "unit Watcher" where
  "demoWatcher =
     \<lparr>serviceMetadataPrefix = ''sample/metadata/'', serviceDiscoveryPrefix = ''sample/discover/'',
      metadataMap = Map.empty, instancesMap = Map.empty, initialLoading = False,
      eventChan = []\<rparr>"

definition demoPut :: KvEvent where
  "demoPut = \<lparr>KvType = EventTypePut, Key = ''sample/metadata/user'', Value = ''{}''\<rparr>"

subsection \<open>Registry\<close>

text \<open>
  Stand-ins for the library functions of the registry, for the examples: white space and
  letters are the ASCII ones, and the paths of the examples are clean already.
\<close>

definition asciiSpace :: "char \<Rightarrow> bool" where
  "asciiSpace c \<longleftrightarrow> c \<in> {CHR '' '', CHR 0x09, CHR 0x0A, CHR 0x0B, CHR 0x0C, CHR 0x0D}"

definition asciiTrimSpace :: "string \<Rightarrow> string" where
  "asciiTrimSpace s = rev (dropWhile asciiSpace (rev (dropWhile asciiSpace s)))"

definition asciiToUpper :: "string \<Rightarrow> string" where
  "asciiToUpper s =
     map (\<lambda>c. if (97::nat) \<le> of_char c \<and> of_char c \<le> (122::nat)
              then char_of (of_char c - (32::nat)) else c) s"

definition demoEnv :: "(nat, unit) env" where
  "demoEnv =
     \<lparr>TrimSpace = asciiTrimSpace, ToUpper = asciiToUpper, Clean = (\<lambda>p. p),
      NewGRPCInvoker = (\<lambda>addr d. Inr (length addr, [])),
      rangeOrder = (\<lambda>ks. [])\<rparr>"

definition svcInfo :: "string \<Rightarrow> ServiceInstance list \<Rightarrow> unit ServiceInfo" where
  "svcInfo name insts = \<lparr>meta = \<lparr>ServiceName = name, Descriptor = None, DescriptorData = [], Version = [],
      Metadata = Map.empty\<rparr>, Instances = insts\<rparr>"

text \<open>
  The HTTP rules that a list of file descriptors publishes, in the order in which the
  loops of \<open>RegisterService\<close> meet them (a method whose rules do not parse publishes
  none), the key of a rule, the route that is stored for it, and one round of the
  innermost loop.
\<close>

definition ruleKey :: "('inv, 'fds) env \<Rightarrow> HTTPRule \<Rightarrow> string" where
  "ruleKey env rule = normalizePath env (Method rule) (Path rule)"

definition methodRules ::
  "ServiceDescriptor \<Rightarrow> MethodDescriptor \<Rightarrow> (ServiceDescriptor \<times> MethodDescriptor \<times> HTTPRule) list" where
  "methodRules svc m =
     (case ExtractHTTPRules m of Inl e \<Rightarrow> [] | Inr rules \<Rightarrow> map (\<lambda>rule. (svc, m, rule)) rules)"

definition publishedRules ::
  "FileDescriptor list \<Rightarrow> (ServiceDescriptor \<times> MethodDescriptor \<times> HTTPRule) list" where
  "publishedRules files =
     concat (map (\<lambda>f. concat (map (\<lambda>svc. concat (map (methodRules svc) (Methods svc)))
                                   (Services f))) files)"

definition routeOf :: "string \<Rightarrow> ServiceDescriptor \<times> MethodDescriptor \<times> HTTPRule \<Rightarrow> Route" where
  "routeOf name x =
     (case x of (svc, m, rule) \<Rightarrow>
        \<lparr>RouteServiceName = name, MethodName = Name m,
         FullMethod = FullyQualifiedName svc @ ''/'' @ Name m, MethodDesc = m, HttpRule = rule\<rparr>)"

definition registerStep ::
  "('inv, 'fds) env \<Rightarrow> string \<Rightarrow> 'inv HTTPRouter \<Rightarrow> ServiceDescriptor \<times> MethodDescriptor \<times> HTTPRule
     \<Rightarrow> 'inv HTTPRouter" where
  "registerStep env name r x = (case x of (svc, m, rule) \<Rightarrow> registerRule env name svc m r rule)"

text \<open>
  The example of the specification: two services whose descriptors both publish
  \<open>GET /v1/ping\<close>.
\<close>

definition pingFile :: FileDescriptor where
  "pingFile =
     \<lparr>Services =
        [\<lparr>FullyQualifiedName = ''ping.v1.PingService'',
          Methods = [\<lparr>Name = ''Ping'',
                      HttpOption = Some (Annotation (HttpRule_Get ''/v1/ping'') [] [])\<rparr>]\<rparr>]\<rparr>"

definition pingEnv :: "(string, unit) env" where
  "pingEnv =
     \<lparr>TrimSpace = asciiTrimSpace, ToUpper = asciiToUpper, Clean = (\<lambda>p. p),
      NewGRPCInvoker = (\<lambda>addr d. Inr (addr, [pingFile])),
      rangeOrder = (\<lambda>ks. if ks = {''/[GET]/v1/ping''} then [''/[GET]/v1/ping''] else [])\<rparr>"

definition alpha :: "unit ServiceInfo" where "alpha = svcInfo ''alpha'' [instA]"
definition beta :: "unit ServiceInfo" where "beta = svcInfo ''beta'' [instB]"

definition afterAlpha :: "string HTTPRouter" where
  "afterAlpha = snd (RegisterService pingEnv NewHTTPRouter (Some alpha))"
definition afterBeta :: "string HTTPRouter" where
  "afterBeta = snd (RegisterService pingEnv afterAlpha (Some beta))"
definition afterUnregister :: "string HTTPRouter" where
  "afterUnregister = snd (UnRegisterService pingEnv afterBeta (Some alpha))"

definition pingRule :: "ServiceDescriptor \<times> MethodDescriptor \<times> HTTPRule" where
  "pingRule =
     (\<lparr>FullyQualifiedName = ''ping.v1.PingService'',
       Methods = [\<lparr>Name = ''Ping'',
                   HttpOption = Some (Annotation (HttpRule_Get ''/v1/ping'') [] [])\<rparr>]\<rparr>,
      \<lparr>Name = ''Ping'', HttpOption = Some (Annotation (HttpRule_Get ''/v1/ping'') [] [])\<rparr>,
      \<lparr>Method = ''GET'', Path = ''/v1/ping'', Body = []\<rparr>)"

text \<open>
  A second example: the descriptors of the second service publish \<open>GET /v1/ping\<close> and
  \<open>GET /v1/ping?x\<close>. \<open>path.Clean\<close> leaves both paths as they are.
\<close>

definition pingQueryService :: ServiceDescriptor where
  "pingQueryService =
     \<lparr>FullyQualifiedName = ''ping.v2.PingService'',
      Methods = [\<lparr>Name = ''Ping'',
                  HttpOption = Some (Annotation (HttpRule_Get ''/v1/ping'') [] [])\<rparr>,
                 \<lparr>Name = ''PingQuery'',
                  HttpOption = Some (Annotation (HttpRule_Get ''/v1/ping?x'') [] [])\<rparr>]\<rparr>"

definition pingQueryFile :: FileDescriptor where
  "pingQueryFile = \<lparr>Services = [pingQueryService]\<rparr>"

definition aliasEnv :: "(string, unit) env" where
  "aliasEnv =
     \<lparr>TrimSpace = asciiTrimSpace, ToUpper = asciiToUpper, Clean = (\<lambda>p. p),
      NewGRPCInvoker =
        (\<lambda>addr d. Inr (addr, [if addr = ''10.0.0.1:50051'' then pingFile else pingQueryFile])),
      rangeOrder = (\<lambda>ks. if ks = {''/[GET]/v1/ping''} then [''/[GET]/v1/ping''] else [])\<rparr>"

definition aliasAfterAlpha :: "string HTTPRouter" where
  "aliasAfterAlpha = snd (RegisterService aliasEnv NewHTTPRouter (Some alpha))"
definition aliasAfterBeta :: "string HTTPRouter" where
  "aliasAfterBeta = snd (RegisterService aliasEnv aliasAfterAlpha (Some beta))"
definition aliasAfterUnregister :: "string HTTPRouter" where
  "aliasAfterUnregister = snd (UnRegisterService aliasEnv aliasAfterBeta (Some alpha))"

definition pingAgainRule :: "ServiceDescriptor \<times> MethodDescriptor \<times> HTTPRule" where
  "pingAgainRule =
     (pingQueryService,
      \<lparr>Name = ''Ping'', HttpOption = Some (Annotation (HttpRule_Get ''/v1/ping'') [] [])\<rparr>,
      \<lparr>Method = ''GET'', Path = ''/v1/ping'', Body = []\<rparr>)"

definition pingQueryRule :: "ServiceDescriptor \<times> MethodDescriptor \<times> HTTPRule" where
  "pingQueryRule =
     (pingQueryService,
      \<lparr>Name = ''PingQuery'',
       HttpOption = Some (Annotation (HttpRule_Get ''/v1/ping?x'') [] [])\<rparr>,
      \<lparr>Method = ''GET'', Path = ''/v1/ping?x'', Body = []\<rparr>)"

section \<open>Route tree: lookup, insertion and deletion\<close>

subsection \<open>The shape of \<open>splitPath\<close>\<close>










subsection \<open>Setters\<close>

lemmas setter_defs = setChildren_def setParamChild_def setWildChild_def setValue_def
lemmas fresh_defs = newStatic_def newParam_def newWild_def NewRouteTree_def

lemma fmupd_same: "fmlookup m k = Some v \<Longrightarrow> fmupd k v m = m"
  by (rule fmap_ext) auto

lemma fmdrop_absent: "fmlookup m k = None \<Longrightarrow> fmdrop k m = m"
  by (rule fmap_ext) auto

lemma setters_id [simp]:
  "setChildren (children n) n = n" "setParamChild (paramChild n) n = n"
  "setWildChild (wildChild n) n = n" "setValue (val n) (fullPath n) n = n"
  by (cases n; simp add: setter_defs)+

lemma setters_same:
  "children n = a \<Longrightarrow> setChildren a n = n" "paramChild n = p \<Longrightarrow> setParamChild p n = n"
  "wildChild n = p \<Longrightarrow> setWildChild p n = n"
  "val n = x \<Longrightarrow> fullPath n = y \<Longrightarrow> setValue x y n = n"
  by auto

lemma setters_twice [simp]:
  "setChildren a (setChildren b n) = setChildren a n"
  "setParamChild p (setParamChild q n) = setParamChild p n"
  "setWildChild p (setWildChild q n) = setWildChild p n"
  "setValue x y (setValue x' y' n) = setValue x y n"
  by (simp_all add: setter_defs)

lemma setters_sel [simp]:
  "children (setChildren a n) = a" "paramChild (setChildren a n) = paramChild n"
  "wildChild (setChildren a n) = wildChild n" "val (setChildren a n) = val n"
  "children (setParamChild p n) = children n" "paramChild (setParamChild p n) = p"
  "wildChild (setParamChild p n) = wildChild n" "val (setParamChild p n) = val n"
  "children (setWildChild p n) = children n" "paramChild (setWildChild p n) = paramChild n"
  "wildChild (setWildChild p n) = p" "val (setWildChild p n) = val n"
  "children (setValue x y n) = children n" "paramChild (setValue x y n) = paramChild n"
  "wildChild (setValue x y n) = wildChild n" "val (setValue x y n) = x"
  "fullPath (setValue x y n) = y"
  by (simp_all add: setter_defs)

subsection \<open>Example paths\<close>

lemma splitPath_wild_rest: "splitPath ''/*rest'' = [''*rest'']"
  by (simp add: splitPath_def trimBlanks_def cutAtByte_def collapseSlashes.simps Let_def)

lemma splitPath_a: "splitPath ''/a'' = [''a'']"
  by (simp add: splitPath_def trimBlanks_def cutAtByte_def collapseSlashes.simps Let_def)

lemma splitPath_a_b: "splitPath ''/a/b'' = [''a'', ''b'']"
  by (simp add: splitPath_def trimBlanks_def cutAtByte_def collapseSlashes.simps Let_def)
lemma splitPath_a_colon: "splitPath ''/a/:'' = [''a'', '':'']"
  by (simp add: splitPath_def trimBlanks_def cutAtByte_def collapseSlashes.simps Let_def)
lemma splitPath_a_id: "splitPath ''/a/:id'' = [''a'', '':id'']"
  by (simp add: splitPath_def trimBlanks_def cutAtByte_def collapseSlashes.simps Let_def)

lemma splitPath_ping: "splitPath ''/[GET]/v1/ping'' = [''[GET]'', ''v1'', ''ping'']"
  by (simp add: splitPath_def trimBlanks_def cutAtByte_def collapseSlashes.simps Let_def)

subsection \<open>Wildcard lookup\<close>

lemma Insert_wild_rest:
  "Insert ''/*rest'' v NewRouteTree =
     (None, Node [] Static fmempty [] None []
        (Some (Node ''*rest'' Wildcard fmempty [] None ''rest'' None (Some v) ''/*rest''))
        None [])"
  by (simp add: Insert_def splitPath_wild_rest setter_defs fresh_defs Let_def)

lemma treeA_eq:
  "treeA = Node [] Static
     (fmupd ''a'' (Node ''a'' Static fmempty [] None [] None (Some 1) ''/a'') fmempty)
     [] None [] None None []"
  by (simp add: treeA_def Insert_def splitPath_a setter_defs fresh_defs Let_def)













subsection \<open>A static sibling of a wildcard\<close>

text \<open>
  Claim C5. The static branch of \<open>Insert\<close> does not look at the wildcard child: after
  \<open>/*rest\<close>, the insertion of \<open>/a\<close> is accepted, and the root has a wildcard child and a
  static child.
\<close>

theorem Insert_static_beside_wildcard:
  "fst (Insert ''/*rest'' (1::nat) NewRouteTree) = None
   \<and> fst (Insert ''/a'' 2 (snd (Insert ''/*rest'' (1::nat) NewRouteTree))) = None
   \<and> wildChild (snd (Insert ''/a'' 2 (snd (Insert ''/*rest'' (1::nat) NewRouteTree)))) \<noteq> None
   \<and> fmlookup (children (snd (Insert ''/a'' 2 (snd (Insert ''/*rest'' (1::nat) NewRouteTree))))) ''a''
       \<noteq> None"
  by (simp add: Insert_wild_rest)
    (simp add: Insert_def splitPath_a setter_defs newStatic_def Let_def)

theorem Insert_static_beside_wildcard_witness:
  "Insert ''/*rest'' (1::nat) NewRouteTree \<noteq> (Some ErrWildcardCoexist, NewRouteTree)
   \<and> fst (Insert ''/a'' 2 (snd (Insert ''/*rest'' (1::nat) NewRouteTree))) \<noteq> Some ErrWildcardCoexist"
  using Insert_static_beside_wildcard by auto

subsection \<open>Keyed trees\<close>

lemma keyed_child: "keyed n \<Longrightarrow> fmlookup (children n) k = Some c \<Longrightarrow> staticKey k \<and> keyed c"
  by (erule keyed.cases) blast

lemma keyed_paramChild: "keyed n \<Longrightarrow> paramChild n = Some c \<Longrightarrow> keyed c"
  by (erule keyed.cases) blast

lemma keyed_wildChild: "keyed n \<Longrightarrow> wildChild n = Some c \<Longrightarrow> keyed c"
  by (erule keyed.cases) blast

lemma keyed_fresh:
  "keyed (newStatic seg)" "keyed (newParam seg name)" "keyed (newWild seg name)"
  "keyed NewRouteTree"
  by (rule keyed.intros; simp add: fresh_defs)+

lemma keyed_setValue [simp]: "keyed (setValue x y n) = keyed n"
  by (simp add: keyed.simps [of "setValue x y n"] keyed.simps [of n])

lemma keyed_setParamChild:
  "keyed n \<Longrightarrow> (\<And>c. p = Some c \<Longrightarrow> keyed c) \<Longrightarrow> keyed (setParamChild p n)"
  by (subst keyed.simps) (auto dest: keyed_child keyed_wildChild)

lemma keyed_setWildChild:
  "keyed n \<Longrightarrow> (\<And>c. p = Some c \<Longrightarrow> keyed c) \<Longrightarrow> keyed (setWildChild p n)"
  by (subst keyed.simps) (auto dest: keyed_child keyed_paramChild)

lemma keyed_setChildren_upd:
  "keyed n \<Longrightarrow> staticKey k \<Longrightarrow> keyed c \<Longrightarrow> keyed (setChildren (fmupd k c (children n)) n)"
  by (subst keyed.simps) (auto dest: keyed_child keyed_paramChild keyed_wildChild split: if_splits)

lemma keyed_setChildren_drop:
  "keyed n \<Longrightarrow> keyed (setChildren (fmdrop k (children n)) n)"
  by (subst keyed.simps) (auto dest: keyed_child keyed_paramChild keyed_wildChild split: if_splits)

lemma keyed_unlink: "keyed n \<Longrightarrow> keyed (unlink key n)"
  by (auto simp: unlink_def intro: keyed_setParamChild keyed_setWildChild keyed_setChildren_drop)

lemma keyed_insertSegs: "keyed cur \<Longrightarrow> keyed (snd (insertSegs segs path v cur))"
proof (induction segs arbitrary: cur)
  case Nil
  then show ?case by simp
next
  case (Cons seg rest)
  show ?case
  proof (cases "seg = []")
    case True
    with Cons show ?thesis by simp
  next
    case seg: False
    show ?thesis
    proof (cases "hd seg = CHR '':''")
      case colon: True
      define pc where "pc = (case paramChild cur of None \<Rightarrow> newParam seg (tl seg) | Some c \<Rightarrow> c)"
      have pc: "keyed pc"
        using Cons.prems
        by (cases "paramChild cur") (auto simp: pc_def keyed_fresh dest: keyed_paramChild)
      then have "keyed (snd (insertSegs rest path v pc))" by (rule Cons.IH)
      with pc Cons.prems have
        "keyed (setParamChild (Some pc) cur)"
        "keyed (setParamChild (Some (snd (insertSegs rest path v pc))) cur)"
        by (auto intro: keyed_setParamChild)
      then show ?thesis
        using seg colon Cons.prems
        by (auto simp: Let_def pc_def [symmetric] split: prod.splits)
    next
      case nocolon: False
      show ?thesis
      proof (cases "hd seg = CHR ''*''")
        case star: True
        define wc where "wc = (case wildChild cur of None \<Rightarrow> newWild seg (tl seg) | Some c \<Rightarrow> c)"
        have wc: "keyed wc"
          using Cons.prems
          by (cases "wildChild cur") (auto simp: wc_def keyed_fresh dest: keyed_wildChild)
        then have "keyed (snd (insertSegs rest path v wc))" by (rule Cons.IH)
        with Cons.prems have
          "keyed (setWildChild (Some (snd (insertSegs rest path v wc))) cur)"
          by (auto intro: keyed_setWildChild)
        then show ?thesis
          using seg nocolon star Cons.prems
          by (auto simp: Let_def wc_def [symmetric] split: prod.splits)
      next
        case nostar: False
        define child where
          "child = (case fmlookup (children cur) seg of None \<Rightarrow> newStatic seg | Some c \<Rightarrow> c)"
        have child: "keyed child"
          using Cons.prems
          by (cases "fmlookup (children cur) seg") (auto simp: child_def keyed_fresh dest: keyed_child)
        then have "keyed (snd (insertSegs rest path v child))" by (rule Cons.IH)
        moreover have "staticKey seg" using seg nocolon nostar by (simp add: staticKey_def)
        ultimately have
          "keyed (setChildren (fmupd seg (snd (insertSegs rest path v child)) (children cur)) cur)"
          using Cons.prems by (intro keyed_setChildren_upd)
        then show ?thesis
          using seg nocolon nostar
          by (auto simp: Let_def child_def [symmetric] split: prod.splits)
      qed
    qed
  qed
qed


lemma keyed_deleteSegs: "keyed cur \<Longrightarrow> keyed (snd (deleteSegs segs cur))"
proof (induction segs arbitrary: cur)
  case Nil
  then show ?case by simp
next
  case (Cons seg rest)
  show ?case
  proof (cases "seg = []")
    case True
    with Cons show ?thesis by simp
  next
    case seg: False
    show ?thesis
    proof (cases "fmlookup (children cur) seg")
      case (Some child)
      with Cons.prems have k: "staticKey seg" "keyed child" by (auto dest: keyed_child)
      then have "keyed (snd (deleteSegs rest child))" by (intro Cons.IH)
      with k Cons.prems have
        "keyed (setChildren (fmupd seg (snd (deleteSegs rest child)) (children cur)) cur)"
        by (intro keyed_setChildren_upd)
      then show ?thesis
        using seg Some by (auto simp: Let_def split: prod.splits intro: keyed_unlink)
    next
      case None
      show ?thesis
      proof (cases "paramChild cur")
        case (Some pc)
        with Cons.prems have "keyed pc" by (auto dest: keyed_paramChild)
        then have "keyed (snd (deleteSegs rest pc))" by (intro Cons.IH)
        with Cons.prems have "keyed (setParamChild (Some (snd (deleteSegs rest pc))) cur)"
          by (auto intro: keyed_setParamChild)
        then show ?thesis
          using seg None Some by (auto simp: Let_def split: prod.splits intro: keyed_unlink)
      next
        case noparam: None
        show ?thesis
        proof (cases "wildChild cur")
          case (Some wc)
          with Cons.prems have "keyed wc" by (auto dest: keyed_wildChild)
          then have "keyed (setValue None [] wc)" by simp
          with Cons.prems have "keyed (setWildChild (Some (setValue None [] wc)) cur)"
            by (auto intro: keyed_setWildChild)
          then show ?thesis
            using seg None noparam Some
            by (auto simp: Let_def split: prod.splits intro: keyed_unlink)
        next
          case nowild: None
          with seg None noparam Cons.prems show ?thesis by simp
        qed
      qed
    qed
  qed
qed

lemma reached_keyed: "reached t \<Longrightarrow> keyed t"
proof (induction rule: reached.induct)
  case 1
  show ?case by (rule keyed_fresh)
next
  case (2 t k v e t')
  then show ?case
    using keyed_insertSegs [of t "splitPath k" k v]
    by (auto simp: Insert_def split: if_splits)
next
  case (3 t k b t')
  then show ?case
    using keyed_deleteSegs [of t "splitPath k"]
    by (auto simp: Delete_def split: if_splits)
qed

subsection \<open>Compacted trees\<close>

lemma compacted_child:
  "compacted n \<Longrightarrow> fmlookup (children n) k = Some c \<Longrightarrow> staticKey k \<and> \<not> isBare c \<and> compacted c"
  by (erule compacted.cases) blast

lemma compacted_paramChild:
  "compacted n \<Longrightarrow> paramChild n = Some c \<Longrightarrow> \<not> isBare c \<and> compacted c"
  by (erule compacted.cases) blast

lemma compacted_wildChild:
  "compacted n \<Longrightarrow> wildChild n = Some c \<Longrightarrow> \<not> isBare c \<and> compacted c"
  by (erule compacted.cases) blast

lemma compacted_fullPath: "compacted n \<Longrightarrow> val n = None \<Longrightarrow> fullPath n = []"
  by (erule compacted.cases) blast

lemma compacted_fresh:
  "compacted (newStatic seg)" "compacted (newParam seg name)" "compacted (newWild seg name)"
  by (rule compacted.intros; simp add: fresh_defs)+

lemma bare_slot_free: "isBare n \<Longrightarrow> \<not> slotTaken segs n"
  by (induction segs) (auto simp: isBare_def)

lemma bare_fresh: "isBare (newStatic seg)" "isBare (newParam seg name)" "isBare (newWild seg name)"
  by (simp_all add: isBare_def fresh_defs)

lemma insertSegs_names:
  "insertSegs segs path v cur = (e, cur') \<Longrightarrow>
     paramName cur' = paramName cur \<and> wildName cur' = wildName cur"
  by (induction segs arbitrary: cur cur' e)
     (auto simp: setter_defs Let_def split: if_splits prod.splits)

lemma compacted_keyed: "compacted n \<Longrightarrow> keyed n"
  by (induction rule: compacted.induct) (auto intro: keyed.intros)

lemma compacted_empty: "compacted NewRouteTree"
  by (rule compacted.intros) (simp_all add: NewRouteTree_def)

lemma compacted_iff:
  "compacted n \<longleftrightarrow>
     (\<forall>k c. fmlookup (children n) k = Some c \<longrightarrow> staticKey k \<and> \<not> isBare c \<and> compacted c)
     \<and> (\<forall>c. paramChild n = Some c \<longrightarrow> \<not> isBare c \<and> compacted c)
     \<and> (\<forall>c. wildChild n = Some c \<longrightarrow> \<not> isBare c \<and> compacted c)
     \<and> (val n = None \<longrightarrow> fullPath n = [])"
  by (subst compacted.simps) auto

lemma compacted_setValue_Some: "compacted n \<Longrightarrow> compacted (setValue (Some v) p n)"
  by (subst compacted_iff) (auto dest: compacted_child compacted_paramChild compacted_wildChild)

lemma compacted_setValue_None: "compacted n \<Longrightarrow> compacted (setValue None [] n)"
  by (subst compacted_iff) (auto dest: compacted_child compacted_paramChild compacted_wildChild)

lemma compacted_setParamChild:
  "compacted n \<Longrightarrow> (\<And>c. p = Some c \<Longrightarrow> \<not> isBare c \<and> compacted c)
     \<Longrightarrow> compacted (setParamChild p n)"
  by (subst compacted_iff)
     (auto simp: setParamChild_def dest: compacted_child compacted_wildChild compacted_fullPath)

lemma compacted_setWildChild:
  "compacted n \<Longrightarrow> (\<And>c. p = Some c \<Longrightarrow> \<not> isBare c \<and> compacted c)
     \<Longrightarrow> compacted (setWildChild p n)"
  by (subst compacted_iff)
     (auto simp: setWildChild_def dest: compacted_child compacted_paramChild compacted_fullPath)

lemma compacted_setChildren_upd:
  "compacted n \<Longrightarrow> staticKey k \<Longrightarrow> \<not> isBare c \<Longrightarrow> compacted c
     \<Longrightarrow> compacted (setChildren (fmupd k c (children n)) n)"
  by (subst compacted_iff)
     (auto simp: setChildren_def dest: compacted_child compacted_paramChild compacted_wildChild
        compacted_fullPath split: if_splits)

lemma compacted_setChildren_drop:
  "compacted n \<Longrightarrow> compacted (setChildren (fmdrop k (children n)) n)"
  by (subst compacted_iff)
     (auto simp: setChildren_def dest: compacted_child compacted_paramChild compacted_wildChild
        compacted_fullPath split: if_splits)


lemma compacted_unlink:
  "compacted n \<Longrightarrow> compacted (unlink key n)"
  by (auto simp: unlink_def
      intro: compacted_setParamChild compacted_setWildChild compacted_setChildren_drop)

lemma not_bare_after:
  "\<not> isBare (setValue (Some v) p n)" "\<not> isBare (setParamChild (Some c) n)"
  "\<not> isBare (setWildChild (Some c) n)" "\<not> isBare (setChildren (fmupd k c m) n)"
proof -
  have "fmlookup (fmupd k c m) k \<noteq> fmlookup fmempty k" by simp
  then have "fmupd k c m \<noteq> fmempty" by metis
  then show "\<not> isBare (setChildren (fmupd k c m) n)" by (simp add: isBare_def)
qed (simp_all add: isBare_def)

lemma compacted_insertSegs:
  "compacted cur \<Longrightarrow> insertSegs segs path v cur = (None, cur')
     \<Longrightarrow> compacted cur' \<and> \<not> isBare cur'"
proof (induction segs arbitrary: cur cur')
  case Nil
  then show ?case by (auto simp: compacted_setValue_Some not_bare_after)
next
  case (Cons seg rest)
  note wf = Cons.prems(1) and ins = Cons.prems(2)
  show ?case
  proof (cases "seg = []")
    case True
    with Cons show ?thesis by simp
  next
    case seg: False
    show ?thesis
    proof (cases "hd seg = CHR '':''")
      case colon: True
      define pc where "pc = (case paramChild cur of None \<Rightarrow> newParam seg (tl seg) | Some c \<Rightarrow> c)"
      from ins seg colon obtain pc' where
        sub: "insertSegs rest path v pc = (None, pc')" and
        cur': "cur' = setParamChild (Some pc') cur"
        by (auto simp: Let_def pc_def split: if_splits prod.splits)
      have "compacted pc"
        using wf
        by (cases "paramChild cur") (auto simp: pc_def compacted_fresh dest: compacted_paramChild)
      from Cons.IH [OF this sub] wf show ?thesis
        by (auto simp: cur' not_bare_after intro: compacted_setParamChild)
    next
      case nocolon: False
      show ?thesis
      proof (cases "hd seg = CHR ''*''")
        case star: True
        define wc where "wc = (case wildChild cur of None \<Rightarrow> newWild seg (tl seg) | Some c \<Rightarrow> c)"
        from ins seg nocolon star obtain wc' where
          sub: "insertSegs rest path v wc = (None, wc')" and
          cur': "cur' = setWildChild (Some wc') cur"
          by (auto simp: Let_def wc_def split: if_splits prod.splits)
        have "compacted wc"
          using wf
          by (cases "wildChild cur") (auto simp: wc_def compacted_fresh dest: compacted_wildChild)
        from Cons.IH [OF this sub] wf show ?thesis
          by (auto simp: cur' not_bare_after intro: compacted_setWildChild)
      next
        case nostar: False
        define child where
          "child = (case fmlookup (children cur) seg of None \<Rightarrow> newStatic seg | Some c \<Rightarrow> c)"
        from ins seg nocolon nostar obtain child' where
          sub: "insertSegs rest path v child = (None, child')" and
          cur': "cur' = setChildren (fmupd seg child' (children cur)) cur"
          by (auto simp: Let_def child_def split: if_splits prod.splits)
        have "compacted child"
          using wf
          by (cases "fmlookup (children cur) seg")
             (auto simp: child_def compacted_fresh dest: compacted_child)
        moreover have "staticKey seg" using seg nocolon nostar by (simp add: staticKey_def)
        ultimately show ?thesis
          using Cons.IH [OF _ sub] wf
          by (auto simp: cur' not_bare_after intro: compacted_setChildren_upd)
      qed
    qed
  qed
qed

lemma deleteSegs_miss:
  "compacted cur \<Longrightarrow> \<not> fst (deleteSegs segs cur) \<Longrightarrow> snd (deleteSegs segs cur) = cur"
proof (induction segs arbitrary: cur)
  case Nil
  then show ?case by (auto simp: setters_same dest: compacted_fullPath)
next
  case (Cons seg rest)
  show ?case
  proof (cases "seg = []")
    case True
    with Cons show ?thesis by simp
  next
    case seg: False
    show ?thesis
    proof (cases "fmlookup (children cur) seg")
      case (Some child)
      with Cons.prems have "compacted child" by (auto dest: compacted_child)
      moreover from Cons.prems seg Some have "\<not> fst (deleteSegs rest child)"
        by (auto simp: Let_def split: prod.splits)
      ultimately have "snd (deleteSegs rest child) = child" by (rule Cons.IH)
      with Cons.prems seg Some show ?thesis
        by (auto simp: Let_def fmupd_same setters_same split: prod.splits)
    next
      case None
      show ?thesis
      proof (cases "paramChild cur")
        case (Some pc)
        with Cons.prems have "compacted pc" by (auto dest: compacted_paramChild)
        moreover from Cons.prems seg None Some have "\<not> fst (deleteSegs rest pc)"
          by (auto simp: Let_def split: prod.splits)
        ultimately have "snd (deleteSegs rest pc) = pc" by (rule Cons.IH)
        with Cons.prems seg None Some show ?thesis
          by (auto simp: Let_def setters_same split: prod.splits)
      next
        case noparam: None
        show ?thesis
        proof (cases "wildChild cur")
          case (Some wc)
          with Cons.prems have "compacted wc" by (auto dest: compacted_wildChild)
          moreover from Cons.prems seg None noparam Some have "val wc = None"
            by (auto simp: Let_def split: prod.splits)
          ultimately have "setValue None [] wc = wc"
            by (auto simp: setters_same dest: compacted_fullPath)
          with Cons.prems seg None noparam Some show ?thesis
            by (auto simp: Let_def setters_same split: prod.splits)
        next
          case nowild: None
          with seg None noparam show ?thesis by simp
        qed
      qed
    qed
  qed
qed


lemma compacted_deleteSegs: "compacted cur \<Longrightarrow> compacted (snd (deleteSegs segs cur))"
proof (induction segs arbitrary: cur)
  case Nil
  then show ?case by (simp add: compacted_setValue_None)
next
  case (Cons seg rest)
  note wf = Cons.prems
  show ?case
  proof (cases "fst (deleteSegs (seg # rest) cur)")
    case False
    with wf have "snd (deleteSegs (seg # rest) cur) = cur" by (rule deleteSegs_miss)
    with wf show ?thesis by simp
  next
    case had: True
    show ?thesis
    proof (cases "seg = []")
      case True
      with Cons show ?thesis by simp
    next
      case seg: False
      show ?thesis
      proof (cases "fmlookup (children cur) seg")
        case (Some child)
        with wf have k: "staticKey seg" "compacted child" by (auto dest: compacted_child)
        obtain child' where d: "deleteSegs rest child = (True, child')"
          using had seg Some by (cases "deleteSegs rest child") (auto simp: Let_def)
        from Cons.IH [OF k(2), of ] d have c: "compacted child'" by (metis snd_conv)
        have "snd (deleteSegs (seg # rest) cur) =
            (if isBare child' then setChildren (fmdrop seg (children cur)) cur
             else setChildren (fmupd seg child' (children cur)) cur)"
          using seg Some d k(1)
          by (simp add: Let_def unlink_def staticKey_def fmdrop_fmupd_same)
        then show ?thesis
          using wf k c by (simp add: compacted_setChildren_drop compacted_setChildren_upd)
      next
        case None
        show ?thesis
        proof (cases "paramChild cur")
          case (Some pc)
          with wf have k: "compacted pc" by (auto dest: compacted_paramChild)
          obtain pc' where d: "deleteSegs rest pc = (True, pc')"
            using had seg None Some by (cases "deleteSegs rest pc") (auto simp: Let_def)
          from Cons.IH [OF k] d have c: "compacted pc'" by (metis snd_conv)
          have "snd (deleteSegs (seg # rest) cur) =
              (if isBare pc' then setParamChild None cur else setParamChild (Some pc') cur)"
            using seg None Some d by (simp add: Let_def unlink_def)
          then show ?thesis
            using wf c by (auto intro: compacted_setParamChild)
        next
          case noparam: None
          show ?thesis
          proof (cases "wildChild cur")
            case (Some wc)
            with wf have k: "compacted wc" by (auto dest: compacted_wildChild)
            then have c: "compacted (setValue None [] wc)" by (rule compacted_setValue_None)
            have "snd (deleteSegs (seg # rest) cur) =
                (if isBare (setValue None [] wc) then setWildChild None cur
                 else setWildChild (Some (setValue None [] wc)) cur)"
              using had seg None noparam Some by (auto simp: Let_def unlink_def)
            then show ?thesis
              using wf c by (auto intro: compacted_setWildChild)
          next
            case nowild: None
            with seg None noparam wf show ?thesis by simp
          qed
        qed
      qed
    qed
  qed
qed

lemma built_compacted: "built t \<Longrightarrow> compacted t"
proof (induction rule: built.induct)
  case 1
  show ?case by (rule compacted_empty)
next
  case (2 t k v t')
  then show ?case
    using compacted_insertSegs [of t "splitPath k" k v t']
    by (auto simp: Insert_def split: if_splits)
next
  case (3 t k b t')
  then show ?case
    using compacted_deleteSegs [of t "splitPath k"]
    by (auto simp: Delete_def split: if_splits)
qed

subsection \<open>Deletion after insertion\<close>

lemma delete_frees_slot:
  "keyed cur \<Longrightarrow> insertSegs segs path v cur = (None, cur')
     \<Longrightarrow> fst (deleteSegs segs cur') \<and> \<not> slotTaken segs (snd (deleteSegs segs cur'))"
proof (induction segs arbitrary: cur cur')
  case Nil
  then show ?case by auto
next
  case (Cons seg rest)
  note wf = Cons.prems(1) and ins = Cons.prems(2)
  show ?case
  proof (cases "seg = []")
    case True
    with Cons show ?thesis by simp
  next
    case seg: False
    show ?thesis
    proof (cases "hd seg = CHR '':''")
      case colon: True
      define pc where "pc = (case paramChild cur of None \<Rightarrow> newParam seg (tl seg) | Some c \<Rightarrow> c)"
      from ins seg colon obtain pc' where
        sub: "insertSegs rest path v pc = (None, pc')" and
        cur': "cur' = setParamChild (Some pc') cur"
        by (auto simp: Let_def pc_def split: if_splits prod.splits)
      have "keyed pc"
        using wf by (cases "paramChild cur") (auto simp: pc_def keyed_fresh dest: keyed_paramChild)
      from Cons.IH [OF this sub] obtain pc'' where
        ret: "deleteSegs rest pc' = (True, pc'')" "\<not> slotTaken rest pc''"
        by (cases "deleteSegs rest pc'") auto
      have nostatic: "fmlookup (children cur) seg = None"
        using wf colon keyed_child [of cur seg] by (cases "fmlookup (children cur) seg")
          (auto simp: staticKey_def)
      show ?thesis
        using seg colon nostatic ret by (auto simp: cur' Let_def unlink_def)
    next
      case nocolon: False
      show ?thesis
      proof (cases "hd seg = CHR ''*''")
        case star: True
        define wc where "wc = (case wildChild cur of None \<Rightarrow> newWild seg (tl seg) | Some c \<Rightarrow> c)"
        from ins seg nocolon star have
          last: "rest = []" and nokids: "children cur = fmempty" "paramChild cur = None" and
          cur': "cur' = setWildChild (Some (setValue (Some v) path wc)) cur"
          by (auto simp: Let_def wc_def split: if_splits prod.splits)
        show ?thesis
          using seg nocolon star nokids by (auto simp: cur' last Let_def unlink_def)
      next
        case nostar: False
        define child where
          "child = (case fmlookup (children cur) seg of None \<Rightarrow> newStatic seg | Some c \<Rightarrow> c)"
        from ins seg nocolon nostar obtain child' where
          sub: "insertSegs rest path v child = (None, child')" and
          cur': "cur' = setChildren (fmupd seg child' (children cur)) cur"
          by (auto simp: Let_def child_def split: if_splits prod.splits)
        have "keyed child"
          using wf by (cases "fmlookup (children cur) seg")
            (auto simp: child_def keyed_fresh dest: keyed_child)
        from Cons.IH [OF this sub] obtain child'' where
          ret: "deleteSegs rest child' = (True, child'')" "\<not> slotTaken rest child''"
          by (cases "deleteSegs rest child'") auto
        show ?thesis
          using seg nocolon nostar ret by (auto simp: cur' Let_def unlink_def)
      qed
    qed
  qed
qed

lemma roundtrip_segs:
  "compacted cur \<Longrightarrow> insertSegs segs path v cur = (None, cur') \<Longrightarrow> \<not> slotTaken segs cur
     \<Longrightarrow> deleteSegs segs cur' = (True, cur)"
proof (induction segs arbitrary: cur cur')
  case Nil
  then have "val cur = None" by simp
  moreover from this Nil have "fullPath cur = []" by (simp add: compacted_fullPath)
  ultimately have "setValue None [] cur = cur" by (simp add: setters_same)
  with Nil show ?case by auto
next
  case (Cons seg rest)
  note wf = Cons.prems(1) and ins = Cons.prems(2) and free = Cons.prems(3)
  show ?case
  proof (cases "seg = []")
    case True
    with Cons show ?thesis by simp
  next
    case seg: False
    show ?thesis
    proof (cases "hd seg = CHR '':''")
      case colon: True
      define pc where "pc = (case paramChild cur of None \<Rightarrow> newParam seg (tl seg) | Some c \<Rightarrow> c)"
      from ins seg colon obtain pc' where
        sub: "insertSegs rest path v pc = (None, pc')" and
        cur': "cur' = setParamChild (Some pc') cur"
        by (auto simp: Let_def pc_def split: if_splits prod.splits)
      have pc: "compacted pc \<and> \<not> slotTaken rest pc \<and> (isBare pc \<longleftrightarrow> paramChild cur = None)"
        using wf free seg colon
        by (cases "paramChild cur")
           (auto simp: pc_def compacted_fresh bare_fresh bare_slot_free
                 dest: compacted_paramChild)
      then have ret: "deleteSegs rest pc' = (True, pc)"
        using Cons.IH sub by blast
      have nostatic: "fmlookup (children cur) seg = None"
        using wf colon compacted_child [of cur seg] by (cases "fmlookup (children cur) seg")
          (auto simp: staticKey_def)
      have "deleteSegs (seg # rest) cur' =
          (True, if isBare pc then unlink (CHR '':'' # paramName pc) (setParamChild (Some pc) cur)
                 else setParamChild (Some pc) cur)"
        using seg nostatic ret by (auto simp: cur' Let_def)
      also have "\<dots> = (True, cur)"
        using pc by (cases "paramChild cur") (auto simp: unlink_def pc_def setters_same)
      finally show ?thesis .
    next
      case nocolon: False
      show ?thesis
      proof (cases "hd seg = CHR ''*''")
        case star: True
        define wc where "wc = (case wildChild cur of None \<Rightarrow> newWild seg (tl seg) | Some c \<Rightarrow> c)"
        from ins seg nocolon star have
          last: "rest = []" and nokids: "children cur = fmempty" "paramChild cur = None" and
          cur': "cur' = setWildChild (Some (setValue (Some v) path wc)) cur"
          by (auto simp: Let_def wc_def split: if_splits prod.splits)
        have wc: "compacted wc \<and> val wc = None \<and> (isBare wc \<longleftrightarrow> wildChild cur = None)"
          using wf free seg nocolon star last
          by (cases "wildChild cur")
             (auto simp: wc_def compacted_fresh compacted_fresh(3) [unfolded newWild_def]
                   isBare_def newWild_def dest: compacted_wildChild)
        then have fp: "fullPath wc = []" by (simp add: compacted_fullPath)
        have "deleteSegs (seg # rest) cur' =
            (True, if isBare wc then unlink (CHR ''*'' # wildName wc) (setWildChild (Some wc) cur)
                   else setWildChild (Some wc) cur)"
          using seg nokids wc fp by (auto simp: cur' last setters_same Let_def)
        also have "\<dots> = (True, cur)"
          using wc by (cases "wildChild cur") (auto simp: unlink_def wc_def setters_same)
        finally show ?thesis .
      next
        case nostar: False
        define child where
          "child = (case fmlookup (children cur) seg of None \<Rightarrow> newStatic seg | Some c \<Rightarrow> c)"
        from ins seg nocolon nostar obtain child' where
          sub: "insertSegs rest path v child = (None, child')" and
          cur': "cur' = setChildren (fmupd seg child' (children cur)) cur"
          by (auto simp: Let_def child_def split: if_splits prod.splits)
        have child: "compacted child \<and> \<not> slotTaken rest child
            \<and> (isBare child \<longleftrightarrow> fmlookup (children cur) seg = None)"
          using wf free seg nocolon nostar
          by (cases "fmlookup (children cur) seg")
             (auto simp: child_def compacted_fresh bare_fresh bare_slot_free
                   dest: compacted_child)
        then have ret: "deleteSegs rest child' = (True, child)"
          using Cons.IH sub by blast
        have "deleteSegs (seg # rest) cur' =
            (True, if isBare child then unlink seg (setChildren (fmupd seg child (children cur)) cur)
                   else setChildren (fmupd seg child (children cur)) cur)"
          using seg ret by (auto simp: cur' Let_def)
        also have "\<dots> = (True, cur)"
          using child seg nocolon nostar
          by (cases "fmlookup (children cur) seg")
             (auto simp: unlink_def child_def setters_same fmupd_same fmdrop_fmupd_same
                fmdrop_absent)
        finally show ?thesis .
      qed
    qed
  qed
qed

lemma treeBare_eq:
  "Insert ''/a/:'' 1 NewRouteTree = (Some ErrParamNameEmpty, treeBare)
   \<and> treeBare = Node [] Static
     (fmupd ''a'' (Node ''a'' Static fmempty [] None [] None None []) fmempty)
     [] None [] None None []"
  by (simp add: treeBare_def Insert_def splitPath_a_colon setter_defs fresh_defs Let_def)

text \<open>
  Claim C8 as stated fails, in two ways. When the key is in the tree already, \<open>Insert\<close>
  overwrites its value and \<open>Delete\<close> then removes the key: the tree with \<open>/a\<close> becomes
  the empty tree. When a failed \<open>Insert\<close> has left a bare node (\<open>/a/:\<close> links the node
  \<open>a\<close> and then fails), the compaction after a later \<open>Insert\<close> and \<open>Delete\<close> of \<open>/a/b\<close>
  removes that node too.
\<close>

theorem Insert_Delete_counterexample:
  "fst (Insert ''/a'' 2 treeA) = None
   \<and> Delete ''/a'' (snd (Insert ''/a'' 2 treeA)) = (True, NewRouteTree)
   \<and> treeA \<noteq> NewRouteTree
   \<and> fst (Insert ''/a/b'' 2 treeBare) = None
   \<and> Delete ''/a/b'' (snd (Insert ''/a/b'' 2 treeBare)) = (True, NewRouteTree)
   \<and> treeBare \<noteq> NewRouteTree"
  by (simp add: treeA_eq treeBare_eq Insert_def Delete_def splitPath_a splitPath_a_b
      setter_defs fresh_defs isBare_def unlink_def Let_def fmdrop_fmupd_same)

text \<open>
  Claim C8, amended. For every tree that accepted calls of \<open>Insert\<close> and calls of
  \<open>Delete\<close> have built of the empty tree, and more generally for every compacted tree,
  and every key that \<open>Insert\<close> accepts and whose slot holds no
  value yet, \<open>Delete\<close> of the key after its \<open>Insert\<close> returns true and gives back the
  tree as it was before the \<open>Insert\<close>.
\<close>

theorem Insert_Delete_roundtrip:
  assumes "built t \<or> compacted t" and "Insert k v t = (None, t')"
    and "\<not> slotTaken (splitPath k) t"
  shows "Delete k t' = (True, t)"
proof -
  from assms(1) have wf: "compacted t" by (auto dest: built_compacted)
  from assms(2) have k: "k \<noteq> []" "hd k = CHR ''/''"
    by (auto simp: Insert_def split: if_splits)
  with assms(2) have "insertSegs (splitPath k) k v t = (None, t')"
    by (simp add: Insert_def)
  then have "deleteSegs (splitPath k) t' = (True, t)"
    using wf assms(3) by (intro roundtrip_segs)
  with k show ?thesis by (simp add: Delete_def)
qed

lemma compacted_treeA: "compacted treeA"
  unfolding treeA_eq
  by (rule compacted.intros; simp add: staticKey_def isBare_def split: if_splits)
     (rule compacted.intros; simp)

theorem Insert_Delete_roundtrip_witness:
  "fst (Insert ''/a/:id'' 2 treeA) = None
   \<and> Delete ''/a/:id'' (snd (Insert ''/a/:id'' 2 treeA)) = (True, treeA)"
proof -
  have ok: "fst (Insert ''/a/:id'' 2 treeA) = None"
    by (simp add: treeA_eq Insert_def splitPath_a_id setter_defs fresh_defs Let_def)
  then have ins: "Insert ''/a/:id'' 2 treeA = (None, snd (Insert ''/a/:id'' 2 treeA))"
    by (simp add: prod_eq_iff)
  have free: "\<not> slotTaken (splitPath ''/a/:id'') treeA"
    by (simp add: treeA_eq splitPath_a_id)
  show ?thesis
    using Insert_Delete_roundtrip [OF disjI2 [OF compacted_treeA] ins free] ok by blast
qed

section \<open>Round robin selection\<close>

lemma sint_of_nat_small: "n < 2 ^ 63 \<Longrightarrow> sint (of_nat n :: 64 word) = int n"
  by (simp add: signed_of_nat signed_take_bit_int_eq_self)

lemma sint_add_small:
  assumes "0 \<le> sint (a :: 64 word)" "sint a + int i < 2 ^ 63"
  shows "sint (a + of_nat i) = sint a + int i"
proof -
  from assms have i: "i < 2 ^ 63" by (simp add: nat_less_iff [symmetric]) 
  show ?thesis
    using assms by (simp add: sint_word_add sint_of_nat_small [OF i] signed_take_bit_int_eq_self)
qed

lemma slotIndex_in_range:
  assumes "0 \<le> sint start" "sint start + int n < 2 ^ 63" "i < n"
  shows "slotIndex start i n = int ((nat (sint start) + i) mod n)"
proof -
  have "int n < 2 ^ 63" using assms by linarith
  then have n: "n < 2 ^ 63" by (simp add: nat_less_iff [symmetric])
  have a: "sint (start + of_nat i) = sint start + int i"
    using assms by (intro sint_add_small) auto
  have "slotIndex start i n = (sint start + int i) smod int n"
    by (simp add: slotIndex_def a sint_of_nat_small [OF n])
  also have "\<dots> = (sint start + int i) mod int n"
    using assms by (intro smod_mod_positive) auto
  also have "\<dots> = int ((nat (sint start) + i) mod n)"
    using assms by (simp add: zmod_int)
  finally show ?thesis .
qed

lemma visitInOrder_counter [simp]:
  "visitInOrder (pool\<lparr>counter := c\<rparr>) js = visitInOrder pool js"
  by (induction js) (auto split: option.splits)

lemma scanSlots_visits:
  assumes "0 \<le> sint start" "sint start + int (length (instances pool)) < 2 ^ 63"
    and "\<forall>i \<in> set is. i < length (instances pool)"
  shows "scanSlots pool start (length (instances pool)) is
     = visitInOrder pool (map (\<lambda>i. (nat (sint start) + i) mod length (instances pool)) is)"
  using assms(3)
proof (induction "is")
  case Nil
  show ?case by simp
next
  case (Cons i "is")
  then have i: "i < length (instances pool)" by simp
  have idx: "slotIndex start i (length (instances pool))
      = int ((nat (sint start) + i) mod length (instances pool))"
    by (rule slotIndex_in_range [OF assms(1,2) i])
  have "0 < length (instances pool)" using i by (cases "instances pool") auto
  then have lt: "(nat (sint start) + i) mod length (instances pool) < length (instances pool)"
    by (rule mod_less_divisor)
  show ?case using Cons.IH Cons.prems lt
    by (simp add: idx Let_def split: option.splits)
qed

lemma visitInOrder_fails_iff:
  "visitInOrder pool js = Failed (NoInvokerAvailable (serviceName pool)) \<longleftrightarrow>
     (\<forall>j \<in> set js. \<forall>invoker. invokers pool (Addr (instances pool ! j)) \<noteq> Some (Some invoker))"
  by (induction js) (auto split: option.splits)

lemma rotation_le: 
  assumes "i \<le> j" "j < n" "(c + i) mod n = (c + j) mod (n::nat)" shows "i = j"
proof -
  have "n dvd (c + j) - (c + i)"
    using assms by (subst mod_eq_dvd_iff_nat [symmetric]) auto
  then have "n dvd j - i" by simp
  moreover have "j - i < n" using assms by simp
  ultimately have "j - i = 0" by (meson dvd_imp_le not_less zero_less_iff_neq_zero)
  with assms show ?thesis by simp
qed

lemma rotation_inj: "inj_on (\<lambda>i. (c + i) mod n) {0..<(n::nat)}"
proof (rule inj_onI)
  fix i j assume a: "i \<in> {0..<n}" "j \<in> {0..<n}" "(c + i) mod n = (c + j) mod n"
  show "i = j"
    using a rotation_le [of i j n c] rotation_le [of j i n c] by (cases "i \<le> j") auto
qed

lemma rotation_covers: 
  assumes "0 < n" shows "(\<lambda>i. (c + i) mod n) ` {0..<n} = {0..<(n::nat)}"
proof (rule card_subset_eq)
  show "finite {0..<n}" by simp
  show "(\<lambda>i. (c + i) mod n) ` {0..<n} \<subseteq> {0..<n}" using assms by auto
  show "card ((\<lambda>i. (c + i) mod n) ` {0..<n}) = card {0..<n}"
    by (rule card_image) (rule rotation_inj)
qed

lemma upt2: "[0..<2] = [0, 1]" by (simp add: upt_rec)
lemma upt3: "[0..<3] = [0, 1, 2]" by (simp add: upt_rec)

text \<open>
  Claim C3 as stated fails: with two live instances and the counter at 0 the increment
  yields 1; the slot \<open>(1 + 1) mod 2 = 0\<close> has a live invoker, and the selector answers
  with the invoker of slot 1.
\<close>

theorem round_robin_order_counterexample:
  "counter (snd (getNextInvoker twoPool)) = 1
   \<and> instances twoPool ! ((1 + 1) mod 2) = instA
   \<and> invokers twoPool (Addr instA) = Some (Some 1)
   \<and> fst (getNextInvoker twoPool) = Selected 2"
  by (simp add: getNextInvoker_def twoPool_def Let_def upt2 slotIndex_def instA_def instB_def
      smod_int_alt_def)

lemma scanSlots_not_NoAvailableInstances:
  "scanSlots pool start n is \<noteq> Failed NoAvailableInstances"
  by (induction "is") (auto simp: Let_def split: option.splits)

lemma getNextInvoker_in_range:
  assumes "instances pool \<noteq> []" "0 \<le> sint (counter pool + 1)"
    and "sint (counter pool + 1) + int (length (instances pool)) < 2 ^ 63"
  shows "getNextInvoker pool =
         (visitInOrder pool
            (map (\<lambda>i. (nat (sint (counter pool + 1)) + i) mod length (instances pool))
               [0..<length (instances pool)]),
          pool\<lparr>counter := counter pool + 1\<rparr>)"
proof -
  let ?p = "pool\<lparr>counter := counter pool + 1\<rparr>"
  have "scanSlots ?p (counter pool + 1) (length (instances ?p)) [0..<length (instances pool)]
      = visitInOrder ?p
          (map (\<lambda>i. (nat (sint (counter pool + 1)) + i) mod length (instances ?p))
             [0..<length (instances pool)])"
    using assms by (intro scanSlots_visits) auto
  then show ?thesis using assms(1) by (simp add: getNextInvoker_def Let_def)
qed

lemma visitInOrder_rotation_fails_iff:
  assumes "instances pool \<noteq> []"
  shows "visitInOrder pool (map (\<lambda>i. (c + i) mod length (instances pool))
            [0..<length (instances pool)]) = Failed (NoInvokerAvailable (serviceName pool))
     \<longleftrightarrow> (\<forall>inst \<in> set (instances pool). \<forall>invoker.
            invokers pool (Addr inst) \<noteq> Some (Some invoker))"
proof -
  let ?js = "map (\<lambda>i. (c + i) mod length (instances pool)) [0..<length (instances pool)]"
  let ?dead = "\<lambda>j. \<forall>invoker. invokers pool (Addr (instances pool ! j)) \<noteq> Some (Some invoker)"
  have js: "set ?js = {0..<length (instances pool)}"
    using assms rotation_covers [of "length (instances pool)" c] by simp
  have "visitInOrder pool ?js = Failed (NoInvokerAvailable (serviceName pool))
      \<longleftrightarrow> (\<forall>j \<in> set ?js. ?dead j)"
    by (rule visitInOrder_fails_iff)
  also have "\<dots> \<longleftrightarrow> (\<forall>j \<in> {0..<length (instances pool)}. ?dead j)"
    by (simp only: js)
  also have "\<dots> \<longleftrightarrow> (\<forall>inst \<in> set (instances pool). \<forall>invoker.
            invokers pool (Addr inst) \<noteq> Some (Some invoker))"
    unfolding all_set_conv_all_nth by (simp add: Ball_def)
  finally show ?thesis .
qed

text \<open>
  Claim C3, amended. The selector fails with the no-instances error exactly when the
  instance list is empty. When the value \<open>c\<close> that the increment yields is not negative
  and \<open>c + n\<close> is below \<open>2^63\<close>, it visits the slots \<open>c mod n, (c + 1) mod n, \<dots>,
  (c + n - 1) mod n\<close> in that order, stores \<open>c\<close>, answers with the first live invoker, and
  fails with the no-invoker error exactly when no instance has a live invoker.
\<close>

theorem getNextInvoker_round_robin:
  "(fst (getNextInvoker pool) = Failed NoAvailableInstances \<longleftrightarrow> instances pool = [])
   \<and> (instances pool \<noteq> [] \<and> 0 \<le> sint (counter pool + 1)
        \<and> sint (counter pool + 1) + int (length (instances pool)) < 2 ^ 63 \<longrightarrow>
       getNextInvoker pool =
         (visitInOrder pool
            (map (\<lambda>i. (nat (sint (counter pool + 1)) + i) mod length (instances pool))
               [0..<length (instances pool)]),
          pool\<lparr>counter := counter pool + 1\<rparr>)
       \<and> (fst (getNextInvoker pool) = Failed (NoInvokerAvailable (serviceName pool)) \<longleftrightarrow>
            (\<forall>inst \<in> set (instances pool). \<forall>invoker.
                invokers pool (Addr inst) \<noteq> Some (Some invoker))))"
proof (intro conjI impI)
  show "fst (getNextInvoker pool) = Failed NoAvailableInstances \<longleftrightarrow> instances pool = []"
    by (simp add: getNextInvoker_def Let_def scanSlots_not_NoAvailableInstances)
next
  assume a: "instances pool \<noteq> [] \<and> 0 \<le> sint (counter pool + 1)
        \<and> sint (counter pool + 1) + int (length (instances pool)) < 2 ^ 63"
  then show "getNextInvoker pool =
         (visitInOrder pool
            (map (\<lambda>i. (nat (sint (counter pool + 1)) + i) mod length (instances pool))
               [0..<length (instances pool)]),
          pool\<lparr>counter := counter pool + 1\<rparr>)"
    by (intro getNextInvoker_in_range) auto
  then show "fst (getNextInvoker pool) = Failed (NoInvokerAvailable (serviceName pool)) \<longleftrightarrow>
            (\<forall>inst \<in> set (instances pool). \<forall>invoker.
                invokers pool (Addr inst) \<noteq> Some (Some invoker))"
    using a by (simp add: visitInOrder_rotation_fails_iff)
qed

theorem getNextInvoker_round_robin_witness:
  "getNextInvoker twoPool = (Selected 2, twoPool\<lparr>counter := 1\<rparr>)
   \<and> fst (getNextInvoker twoPool) \<noteq> Failed (NoInvokerAvailable ''user'')"
  using getNextInvoker_round_robin [of twoPool]
  by (simp add: twoPool_def upt2 instA_def instB_def)

text \<open>
  Claim C9. At the counter \<open>2^63 - 1\<close> the increment wraps to \<open>-2^63\<close>, and with three
  instances the first index is \<open>-2\<close>: the slice access is out of range.
\<close>

theorem getNextInvoker_wrapped_counter:
  "fst (getNextInvoker wrappedPool) = IndexOutOfRange (- 2)"
  by (simp add: getNextInvoker_def wrappedPool_def Let_def upt3 slotIndex_def smod_int_alt_def)

theorem getNextInvoker_wrapped_counter_witness:
  "fst (getNextInvoker wrappedPool) \<noteq> Selected 1
   \<and> fst (getNextInvoker wrappedPool) \<noteq> Failed (NoInvokerAvailable ''user'')"
  using getNextInvoker_wrapped_counter by simp

section \<open>The error mapping follows the table\<close>

text \<open>
  Claim C2. An error that carries a gRPC status is answered with the HTTP status of the
  table for its code (OK 200; Canceled and DeadlineExceeded 408; InvalidArgument,
  FailedPrecondition and OutOfRange 400; NotFound 404; AlreadyExists and Aborted 409;
  PermissionDenied 403; Unauthenticated 401; ResourceExhausted 429; Unimplemented 501;
  Unknown, Internal and DataLoss 500; Unavailable 503; every other code 200) and with an
  envelope whose code is the numeric gRPC status and whose message is the status message.
  An error without a gRPC status is answered with 500 and the envelope of code -1 and the
  error text.
\<close>

theorem mapErrorToHTTP_table:
  "(mapErrorToHTTP (StatusError c m) :: int \<times> 'd Result) =
       (mapGRPCCodeToHTTP c, \<lparr>Code = uint c, Msg = m, Data = None\<rparr>)
   \<and> (mapErrorToHTTP (OtherError t) :: int \<times> 'd Result) = (500, \<lparr>Code = - 1, Msg = t, Data = None\<rparr>)
   \<and> mapGRPCCodeToHTTP OK = 200
   \<and> mapGRPCCodeToHTTP Canceled = 408 \<and> mapGRPCCodeToHTTP DeadlineExceeded = 408
   \<and> mapGRPCCodeToHTTP InvalidArgument = 400 \<and> mapGRPCCodeToHTTP FailedPrecondition = 400
   \<and> mapGRPCCodeToHTTP OutOfRange = 400
   \<and> mapGRPCCodeToHTTP NotFound = 404
   \<and> mapGRPCCodeToHTTP AlreadyExists = 409 \<and> mapGRPCCodeToHTTP Aborted = 409
   \<and> mapGRPCCodeToHTTP PermissionDenied = 403
   \<and> mapGRPCCodeToHTTP Unauthenticated = 401
   \<and> mapGRPCCodeToHTTP ResourceExhausted = 429
   \<and> mapGRPCCodeToHTTP Unimplemented = 501
   \<and> mapGRPCCodeToHTTP Unknown = 500 \<and> mapGRPCCodeToHTTP Internal = 500
   \<and> mapGRPCCodeToHTTP DataLoss = 500
   \<and> mapGRPCCodeToHTTP Unavailable = 503
   \<and> (c \<notin> {OK, Canceled, Unknown, InvalidArgument, DeadlineExceeded, NotFound, AlreadyExists,
            PermissionDenied, ResourceExhausted, FailedPrecondition, Aborted, OutOfRange,
            Unimplemented, Internal, Unavailable, DataLoss, Unauthenticated}
        \<longrightarrow> mapGRPCCodeToHTTP c = 200)"
  by (simp add: mapErrorToHTTP_def mapGRPCCodeToHTTP_def code_defs status_defs)

theorem mapErrorToHTTP_table_witness:
  "(mapErrorToHTTP (StatusError Unavailable ''upstream down'') :: int \<times> unit Result) =
       (503, \<lparr>Code = 14, Msg = ''upstream down'', Data = None\<rparr>)
   \<and> (mapErrorToHTTP (StatusError 99 ''odd'') :: int \<times> unit Result) =
       (200, \<lparr>Code = 99, Msg = ''odd'', Data = None\<rparr>)"
  using mapErrorToHTTP_table [of Unavailable "''upstream down''", where ?'d = unit]
    mapErrorToHTTP_table [of 99 "''odd''", where ?'d = unit]
  by (simp add: code_defs)

section \<open>Payload composition\<close>

lemma requestMap_pathAndQuery:
  "Map.empty ++ (map_option AString \<circ> pathParams) ++ (map_option queryValue \<circ> query)
     = pathAndQuery pathParams query"
  by (rule ext) (simp add: pathAndQuery_def map_add_def queryValue_def split: option.splits)

lemma marshalPayload_marshal:
  "marshalPayload c m = map_sum MarshalFailed id (marshal c m)"
  by (cases "marshal c m") (simp_all add: marshalPayload_def)

text \<open>
  Claim C1. \<open>BuildRequestJSON\<close> marshals the map that the rules give: the path parameters
  as strings, then the query parameters (one value as a string, otherwise the array) over
  them; for GET and DELETE the body is not read; otherwise, for a non-empty body, with
  body field \<open>*\<close> the decoded object is merged over that map, its keys winning, with a
  named body field the decoded body is stored under that name, and with the empty body
  field the body is ignored. The result is what \<open>marshal\<close> makes of that map, its
  error wrapped.
\<close>

theorem BuildRequestJSON_payload:
  "(reqMethod r = ''GET'' \<or> reqMethod r = ''DELETE'' \<longrightarrow>
      BuildRequestJSON c r pathParams bodyField
        = map_sum MarshalFailed id (marshal c (pathAndQuery pathParams (reqQuery r))))
   \<and> (reqMethod r \<noteq> ''GET'' \<and> reqMethod r \<noteq> ''DELETE'' \<and> reqBody r = Inr body \<longrightarrow>
        (body = [] \<or> bodyField = [] \<longrightarrow>
           BuildRequestJSON c r pathParams bodyField
             = map_sum MarshalFailed id (marshal c (pathAndQuery pathParams (reqQuery r))))
      \<and> (body \<noteq> [] \<and> bodyField = ''*'' \<and> unmarshalMap c body = Inr bodyMap \<longrightarrow>
           BuildRequestJSON c r pathParams bodyField
             = map_sum MarshalFailed id
                 (marshal c (pathAndQuery pathParams (reqQuery r) ++ bodyMap)))
      \<and> (body \<noteq> [] \<and> bodyField \<noteq> ''*'' \<and> bodyField \<noteq> [] \<and> unmarshalAny c body = Inr bodyData \<longrightarrow>
           BuildRequestJSON c r pathParams bodyField
             = map_sum MarshalFailed id
                 (marshal c ((pathAndQuery pathParams (reqQuery r))(bodyField \<mapsto> bodyData)))))"
  unfolding BuildRequestJSON_def Let_def requestMap_pathAndQuery marshalPayload_marshal by auto

text \<open>
  The example of the specification: the body with \<open>name\<close> and \<open>age\<close>, the query
  \<open>source=web\<close>, no path parameter, body field \<open>*\<close>.
\<close>

theorem BuildRequestJSON_payload_witness:
  "\<forall>f. BuildRequestJSON (tomCodec f) tomRequest Map.empty ''*''
       = map_sum MarshalFailed id (marshal (tomCodec f)
           [''source'' \<mapsto> AString ''web'', ''name'' \<mapsto> AString ''Tom'', ''age'' \<mapsto> ANumber 18])"
proof
  fix f
  have eq: "pathAndQuery Map.empty (reqQuery tomRequest)
              ++ [''name'' \<mapsto> AString ''Tom'', ''age'' \<mapsto> ANumber (18::nat)]
        = [''source'' \<mapsto> AString ''web'', ''name'' \<mapsto> AString ''Tom'', ''age'' \<mapsto> ANumber 18]"
    by (rule ext) (simp add: pathAndQuery_def tomRequest_def map_add_def)
  have "BuildRequestJSON (tomCodec f) tomRequest Map.empty ''*''
       = map_sum MarshalFailed id (marshal (tomCodec f)
           (pathAndQuery Map.empty (reqQuery tomRequest)
              ++ [''name'' \<mapsto> AString ''Tom'', ''age'' \<mapsto> ANumber (18::nat)]))"
    using BuildRequestJSON_payload [of tomRequest "tomCodec f" Map.empty "''*''"
          tomBody "[''name'' \<mapsto> AString ''Tom'', ''age'' \<mapsto> ANumber 18]"]
    by (simp add: tomCodec_def tomRequest_def tomBody_def)
  then show "BuildRequestJSON (tomCodec f) tomRequest Map.empty ''*''
       = map_sum MarshalFailed id (marshal (tomCodec f)
           [''source'' \<mapsto> AString ''web'', ''name'' \<mapsto> AString ''Tom'', ''age'' \<mapsto> ANumber 18])"
    by (simp only: eq)
qed

section \<open>Metadata events of the watcher\<close>

text \<open>
  Claim C7 as stated fails: after the initial loading, a metadata Put for a service with
  no known instance set sends an Update event, with the empty instance list.
\<close>

theorem metadata_put_counterexample:
  "instancesMap demoWatcher ''user'' = None
   \<and> initialLoading demoWatcher = False
   \<and> eventChan (handleMetadataEvent (\<lambda>d. Inr demoMetadata) (\<lambda>d. Inr ()) demoWatcher demoPut)
       = [\<lparr>Type = EventUpdate, Service = \<lparr>meta = demoMetadata, Instances = []\<rparr>\<rparr>]"
  by (simp add: handleMetadataEvent_def demoWatcher_def demoPut_def demoMetadata_def
      extractServiceNameFromMetadata_def hasPrefix_def trimSuffixSlash_def
      parseServiceMetadata_def send_def Let_def)

text \<open>
  Claim C7, amended. After the initial loading, a metadata Put whose key names a service
  and whose value parses replaces \<open>metadata[s]\<close> and sends one Update event with the
  instances of \<open>s\<close>, the empty list when no instance set is known.
\<close>

theorem metadata_put_emits_update:
  assumes "\<not> initialLoading w"
    and "KvType event = EventTypePut"
    and "extractServiceNameFromMetadata w (Key event) = name"
    and "name \<noteq> []"
    and "parseServiceMetadata jsonUnmarshal protoUnmarshal (Value event) = Inr metadata"
  shows "handleMetadataEvent jsonUnmarshal protoUnmarshal w event =
           w\<lparr>metadataMap := (metadataMap w)(name \<mapsto> metadata),
             eventChan := eventChan w @
               [\<lparr>Type = EventUpdate,
                 Service = \<lparr>meta = metadata,
                            Instances = (case instancesMap w name of None \<Rightarrow> [] | Some l \<Rightarrow> l)\<rparr>\<rparr>]\<rparr>"
  using assms by (simp add: handleMetadataEvent_def send_def Let_def)

theorem metadata_put_emits_update_witness:
  "handleMetadataEvent (\<lambda>d. Inr demoMetadata) (\<lambda>d. Inr ()) demoWatcher demoPut =
     demoWatcher\<lparr>metadataMap := [''user'' \<mapsto> demoMetadata],
       eventChan := [\<lparr>Type = EventUpdate, Service = \<lparr>meta = demoMetadata, Instances = []\<rparr>\<rparr>]\<rparr>"
proof -
  have 1: "\<not> initialLoading demoWatcher" by (simp add: demoWatcher_def)
  have 2: "KvType demoPut = EventTypePut" by (simp add: demoPut_def)
  have 3: "extractServiceNameFromMetadata demoWatcher (Key demoPut) = ''user''"
    by (simp add: extractServiceNameFromMetadata_def demoWatcher_def demoPut_def hasPrefix_def
        trimSuffixSlash_def)
  have 4: "''user'' \<noteq> []" by simp
  have 5: "parseServiceMetadata (\<lambda>d. Inr demoMetadata) (\<lambda>d. Inr ()) (Value demoPut) = Inr demoMetadata"
    by (simp add: parseServiceMetadata_def demoMetadata_def)
  show ?thesis
    using metadata_put_emits_update [OF 1 2 3 4 5] by (simp add: demoWatcher_def)
qed

section \<open>Unregistering an unknown service\<close>

text \<open>
  Claim C10 as stated fails: the empty service name has no routes and no pool, and
  \<open>UnRegisterService\<close> answers it with the invalid-service error.
\<close>

theorem unregister_blank_counterexample:
  "routeIndex (NewHTTPRouter :: nat HTTPRouter) [] = None
   \<and> servicePools (NewHTTPRouter :: nat HTTPRouter) [] = None
   \<and> fst (UnRegisterService demoEnv NewHTTPRouter (Some (svcInfo [] []))) = Some InvalidServiceInfo"
  by (simp add: UnRegisterService_def demoEnv_def NewHTTPRouter_def svcInfo_def asciiTrimSpace_def)

text \<open>
  Claim C10, amended. For a service name that is not blank and has no entry in the route
  index and no pool, \<open>UnRegisterService\<close> returns no error and the registry it leaves is
  the one it found; for a blank name, or no service, it returns the invalid-service error
  and leaves the registry as it found it.
\<close>

theorem unregister_unknown_service:
  "(TrimSpace env (ServiceName (meta svc)) \<noteq> [] \<and> routeIndex r (ServiceName (meta svc)) = None
      \<and> servicePools r (ServiceName (meta svc)) = None
      \<longrightarrow> UnRegisterService env r (Some svc) = (None, r))
   \<and> (TrimSpace env (ServiceName (meta svc)) = []
      \<longrightarrow> UnRegisterService env r (Some svc) = (Some InvalidServiceInfo, r))
   \<and> UnRegisterService env r None = (Some InvalidServiceInfo, r)"
  by (simp add: UnRegisterService_def Let_def fun_upd_idem)

theorem unregister_unknown_service_witness:
  "UnRegisterService demoEnv (NewHTTPRouter :: nat HTTPRouter) (Some (svcInfo ''user'' [])) = (None, NewHTTPRouter)
   \<and> UnRegisterService demoEnv (NewHTTPRouter :: nat HTTPRouter) (Some (svcInfo ''  '' [])) = (Some InvalidServiceInfo, NewHTTPRouter)"
  using unregister_unknown_service [of demoEnv "svcInfo ''user'' []" NewHTTPRouter]
    unregister_unknown_service [of demoEnv "svcInfo ''  '' []" NewHTTPRouter]
  by (simp add: demoEnv_def NewHTTPRouter_def svcInfo_def asciiTrimSpace_def asciiSpace_def)

section \<open>Two services and one path key\<close>

lemma foldl_concat_eq: "foldl f a (concat xss) = foldl (\<lambda>a xs. foldl f a xs) a xss"
  by (induction xss arbitrary: a) auto

lemma foldl_map_eq: "foldl f a (map g xs) = foldl (\<lambda>a x. f a (g x)) a xs"
  by (induction xs arbitrary: a) auto

lemma registerMethod_flat:
  "registerMethod env name svc = (\<lambda>r m. foldl (registerStep env name) r (methodRules svc m))"
proof (intro ext)
  fix r m
  show "registerMethod env name svc r m = foldl (registerStep env name) r (methodRules svc m)"
    by (cases "ExtractHTTPRules m")
       (simp_all add: registerMethod_def methodRules_def foldl_map_eq registerStep_def)
qed

lemma registerRoutes_flat:
  "registerRoutes env name files r = foldl (registerStep env name) r (publishedRules files)"
  by (simp add: registerRoutes_def publishedRules_def foldl_concat_eq foldl_map_eq
      registerMethod_flat)

lemma registerStep_claimed:
  "ruleKey env (snd (snd x)) \<in> pathIndex r \<Longrightarrow> registerStep env name r x = r"
  by (cases x) (simp add: registerStep_def registerRule_def ruleKey_def)

lemma register_all_claimed:
  "\<forall>x \<in> set xs. ruleKey env (snd (snd x)) \<in> pathIndex r
     \<Longrightarrow> foldl (registerStep env name) r xs = r"
  by (induction xs) (simp_all add: registerStep_claimed)

lemma registerStep_installs:
  assumes "ruleKey env (snd (snd x)) \<notin> pathIndex r"
    and "Insert (ruleKey env (snd (snd x))) (routeOf name x) (routerTree r) = (None, t)"
  shows "registerStep env name r x =
     r\<lparr>routerTree := t,
       routeIndex := (routeIndex r)
         (name \<mapsto> insert (ruleKey env (snd (snd x)))
                    (case routeIndex r name of None \<Rightarrow> {} | Some ks \<Rightarrow> ks)),
       pathIndex := insert (ruleKey env (snd (snd x))) (pathIndex r)\<rparr>"
  using assms
  by (cases x) (simp add: registerStep_def registerRule_def ruleKey_def routeOf_def Let_def)

lemma createInvokers_files:
  "createInvokers env need d insts (created, first) = (created', first') \<Longrightarrow>
     first' = first \<or> (\<exists>inst \<in> set insts. \<exists>invoker.
        NewGRPCInvoker env (Addr inst) d = Inr (invoker, first'))"
proof (induction insts arbitrary: created first)
  case Nil
  then show ?case by simp
next
  case (Cons inst insts)
  show ?case
  proof (cases "NewGRPCInvoker env (Addr inst) d")
    case (Inl e)
    with Cons show ?thesis by auto
  next
    case (Inr p)
    obtain invoker fileDescs where p: "p = (invoker, fileDescs)" by (cases p)
    let ?first = "if need \<and> first = [] \<and> length fileDescs > 0 then fileDescs else first"
    from Cons.prems Inr p have
      "createInvokers env need d insts (created(Addr inst \<mapsto> Some invoker), ?first)
         = (created', first')"
      by simp
    from Cons.IH [OF this] have
      "first' = ?first \<or> (\<exists>inst \<in> set insts. \<exists>invoker.
          NewGRPCInvoker env (Addr inst) d = Inr (invoker, first'))" .
    then show ?thesis
      using Inr p by (cases "need \<and> first = [] \<and> length fileDescs > 0") auto
  qed
qed


lemma register_first:
  fixes env :: "('inv, 'fds) env" and r0 :: "'inv HTTPRouter"
  assumes name: "TrimSpace env (ServiceName (meta A)) \<noteq> []"
    and new: "servicePools r0 (ServiceName (meta A)) = None"
      "routeIndex r0 (ServiceName (meta A)) = None"
    and desc: "createInvokers env True (Descriptor (meta A)) (Instances A) (Map.empty, [])
        = (createdA, filesA)"
    and rules: "publishedRules filesA = x # xs"
      "\<forall>y \<in> set (x # xs). ruleKey env (snd (snd y)) = k"
    and k: "k \<notin> pathIndex r0"
      "Insert k (routeOf (ServiceName (meta A)) x) (routerTree r0) = (None, t)"
  shows "\<exists>pool. RegisterService env r0 (Some A) =
      (None, r0\<lparr>routerTree := t,
                servicePools := (servicePools r0)(ServiceName (meta A) \<mapsto> pool),
                routeIndex := (routeIndex r0)(ServiceName (meta A) \<mapsto> {k}),
                pathIndex := insert k (pathIndex r0)\<rparr>)"
proof -
  let ?name = "ServiceName (meta A)"
  let ?pool = "\<lparr>serviceName = ?name, invokers = createdA |` (Addr ` set (Instances A)),
       instances = Instances A, counter = 0 :: 64 word\<rparr>"
  let ?r = "r0\<lparr>servicePools := (servicePools r0)(?name \<mapsto> ?pool)\<rparr>"
  have files: "filesA \<noteq> []" using rules(1) by (auto simp: publishedRules_def)
  have kx: "ruleKey env (snd (snd x)) = k" using rules(2) by simp
  have step: "registerStep env ?name ?r x =
      ?r\<lparr>routerTree := t, routeIndex := (routeIndex r0)(?name \<mapsto> {k}),
         pathIndex := insert k (pathIndex r0)\<rparr>"
    using registerStep_installs [of env x ?r ?name t] k new by (simp add: kx)
  have "registerRoutes env ?name filesA ?r =
      foldl (registerStep env ?name) (registerStep env ?name ?r x) xs"
    by (simp add: registerRoutes_flat rules(1))
  also have "\<dots> = registerStep env ?name ?r x"
  proof (rule register_all_claimed)
    have "pathIndex (registerStep env ?name ?r x) = insert k (pathIndex r0)"
      by (simp only: step) simp
    then show "\<forall>y \<in> set xs. ruleKey env (snd (snd y))
        \<in> pathIndex (registerStep env ?name ?r x)"
      using rules(2) by simp
  qed
  finally have routes: "registerRoutes env ?name filesA ?r =
      ?r\<lparr>routerTree := t, routeIndex := (routeIndex r0)(?name \<mapsto> {k}),
         pathIndex := insert k (pathIndex r0)\<rparr>"
    by (simp add: step)
  have "RegisterService env r0 (Some A) = (None, registerRoutes env ?name filesA ?r)"
    using name new desc files by (simp add: RegisterService_def Let_def)
  then show ?thesis by (auto simp: routes intro!: exI [of _ ?pool])
qed


lemma register_claimed:
  fixes env :: "('inv, 'fds) env" and r :: "'inv HTTPRouter"
  assumes name: "TrimSpace env (ServiceName (meta B)) \<noteq> []"
    and desc: "\<forall>addr invoker files.
        NewGRPCInvoker env addr (Descriptor (meta B)) = Inr (invoker, files) \<longrightarrow>
        (\<forall>y \<in> set (publishedRules files). ruleKey env (snd (snd y)) \<in> pathIndex r)"
  shows "\<exists>pool. RegisterService env r (Some B) =
      (None, r\<lparr>servicePools := (servicePools r)(ServiceName (meta B) \<mapsto> pool)\<rparr>)"
proof -
  let ?name = "ServiceName (meta B)"
  define pool where "pool = (case servicePools r ?name of
      None \<Rightarrow> \<lparr>serviceName = ?name, invokers = Map.empty, instances = [], counter = 0\<rparr>
    | Some p \<Rightarrow> p)"
  define need where "need = (case routeIndex r ?name of None \<Rightarrow> True | Some ks \<Rightarrow> ks = {})"
  define toCreate where
    "toCreate = filter (\<lambda>inst. invokers pool (Addr inst) = None) (Instances B)"
  obtain created files where
    c: "createInvokers env need (Descriptor (meta B)) toCreate (Map.empty, []) = (created, files)"
    by (cases "createInvokers env need (Descriptor (meta B)) toCreate (Map.empty, [])")
  define pool' where "pool' = pool\<lparr>instances := Instances B,
      invokers := (invokers pool ++ created) |` (Addr ` set (Instances B))\<rparr>"
  let ?r = "r\<lparr>servicePools := (servicePools r)(?name \<mapsto> pool')\<rparr>"
  have unfold: "RegisterService env r (Some B) =
      (if need then (if length files = 0 then (None, ?r)
                     else (None, registerRoutes env ?name files ?r))
       else (None, ?r))"
    using name c
    by (simp add: RegisterService_def Let_def pool_def [symmetric] need_def [symmetric]
        toCreate_def [symmetric] pool'_def [symmetric])
  have "registerRoutes env ?name files ?r = ?r"
  proof (cases "files = []")
    case True
    then show ?thesis by (simp add: registerRoutes_def)
  next
    case False
    with createInvokers_files [OF c] obtain addr invoker where
      "NewGRPCInvoker env addr (Descriptor (meta B)) = Inr (invoker, files)"
      by blast
    with desc have "\<forall>y \<in> set (publishedRules files). ruleKey env (snd (snd y)) \<in> pathIndex ?r"
      by simp
    then show ?thesis
      unfolding registerRoutes_flat by (rule register_all_claimed)
  qed
  with unfold have "RegisterService env r (Some B) = (None, ?r)" by simp
  then show ?thesis by blast
qed

lemma unregister_single:
  fixes env :: "('inv, 'fds) env" and r :: "'inv HTTPRouter"
  assumes name: "TrimSpace env (ServiceName (meta A)) \<noteq> []"
    and routes: "routeIndex r (ServiceName (meta A)) = Some {k}"
    and order: "rangeOrder env {k} = [k]"
  shows "UnRegisterService env r (Some A) =
      (None, r\<lparr>routerTree := snd (Delete k (routerTree r)),
                servicePools := (servicePools r)(ServiceName (meta A) := None),
                routeIndex := (routeIndex r)(ServiceName (meta A) := None),
                pathIndex := pathIndex r - {k}\<rparr>)"
  using assms by (simp add: UnRegisterService_def removeRoute_def Let_def)

subsection \<open>Keys that are equal as strings\<close>

text \<open>
  Service \<open>A\<close> is new to the registry and the descriptors of its first invoker publish
  rules with the key \<open>k\<close>, which is not in the path index and which \<open>Insert\<close> accepts;
  every key that a descriptor of service \<open>B\<close> publishes is, as a string, \<open>k\<close> or another
  key of the path index; the tree is keyed (every tree that \<open>Insert\<close> and \<open>Delete\<close> have
  made of the empty tree is, by \<open>reached_keyed\<close>). Then registering \<open>A\<close> installs the
  route of \<open>A\<close> under \<open>k\<close>; registering \<open>B\<close> after that returns no error and leaves the
  tree and both indexes as they are; and unregistering \<open>A\<close> then returns no error,
  deletes \<open>k\<close> from the tree, so that the slot of \<open>k\<close> holds no value, and leaves the path
  index and the route index as they were before \<open>A\<close> registered: \<open>B\<close> has no route. When
  the tree was compacted and the slot of \<open>k\<close> free before \<open>A\<close> registered, the tree is
  again that tree.
\<close>

lemma first_registration_wins:
  fixes env :: "('inv, 'fds) env" and r0 :: "'inv HTTPRouter"
  assumes names: "TrimSpace env (ServiceName (meta A)) \<noteq> []"
      "TrimSpace env (ServiceName (meta B)) \<noteq> []"
      "ServiceName (meta A) \<noteq> ServiceName (meta B)"
    and new: "servicePools r0 (ServiceName (meta A)) = None"
      "routeIndex r0 (ServiceName (meta A)) = None"
    and descA: "createInvokers env True (Descriptor (meta A)) (Instances A) (Map.empty, [])
        = (createdA, filesA)"
      "publishedRules filesA = x # xs"
      "\<forall>y \<in> set (x # xs). ruleKey env (snd (snd y)) = k"
    and descB: "\<forall>addr invoker files.
        NewGRPCInvoker env addr (Descriptor (meta B)) = Inr (invoker, files) \<longrightarrow>
        (\<forall>y \<in> set (publishedRules files).
            ruleKey env (snd (snd y)) \<in> insert k (pathIndex r0))"
    and tree: "k \<notin> pathIndex r0" "keyed (routerTree r0)"
      "Insert k (routeOf (ServiceName (meta A)) x) (routerTree r0) = (None, t)"
    and order: "rangeOrder env {k} = [k]"
    and runs: "RegisterService env r0 (Some A) = (e1, r1)"
      "RegisterService env r1 (Some B) = (e2, r2)"
      "UnRegisterService env r2 (Some A) = (e3, r3)"
  shows "e1 = None \<and> routerTree r1 = t \<and> pathIndex r1 = insert k (pathIndex r0)
      \<and> routeIndex r1 = (routeIndex r0)(ServiceName (meta A) \<mapsto> {k})
    \<and> e2 = None \<and> routerTree r2 = t \<and> pathIndex r2 = pathIndex r1
      \<and> routeIndex r2 = routeIndex r1
    \<and> e3 = None \<and> routerTree r3 = snd (Delete k t)
      \<and> \<not> slotTaken (splitPath k) (routerTree r3)
      \<and> pathIndex r3 = pathIndex r0 \<and> routeIndex r3 = routeIndex r0
      \<and> servicePools r3 (ServiceName (meta A)) = None
      \<and> (compacted (routerTree r0) \<and> \<not> slotTaken (splitPath k) (routerTree r0)
           \<longrightarrow> routerTree r3 = routerTree r0)"
proof -
  let ?a = "ServiceName (meta A)" and ?b = "ServiceName (meta B)"
  from register_first [OF names(1) new descA tree(1,3)] runs(1) obtain poolA where
    r1: "e1 = None" "r1 = r0\<lparr>routerTree := t,
        servicePools := (servicePools r0)(?a \<mapsto> poolA),
        routeIndex := (routeIndex r0)(?a \<mapsto> {k}),
        pathIndex := insert k (pathIndex r0)\<rparr>"
    by auto
  have "\<forall>addr invoker files.
        NewGRPCInvoker env addr (Descriptor (meta B)) = Inr (invoker, files) \<longrightarrow>
        (\<forall>y \<in> set (publishedRules files). ruleKey env (snd (snd y)) \<in> pathIndex r1)"
    using descB by (simp add: r1(2))
  from register_claimed [OF names(2) this] runs(2) obtain poolB where
    r2: "e2 = None" "r2 = r1\<lparr>servicePools := (servicePools r1)(?b \<mapsto> poolB)\<rparr>"
    by auto
  have "routeIndex r2 ?a = Some {k}" by (simp add: r2(2) r1(2))
  from unregister_single [OF names(1) this order] runs(3) have
    r3: "e3 = None" "r3 = r2\<lparr>routerTree := snd (Delete k (routerTree r2)),
        servicePools := (servicePools r2)(?a := None),
        routeIndex := (routeIndex r2)(?a := None),
        pathIndex := pathIndex r2 - {k}\<rparr>"
    by auto
  from tree(3) have kk: "k \<noteq> []" "hd k = CHR ''/''"
      "insertSegs (splitPath k) k (routeOf ?a x) (routerTree r0) = (None, t)"
    by (auto simp: Insert_def split: if_splits)
  have free: "\<not> slotTaken (splitPath k) (snd (Delete k t))"
    using delete_frees_slot [OF tree(2) kk(3)] kk(1,2) by (simp add: Delete_def)
  have same: "snd (Delete k t) = routerTree r0"
    if "compacted (routerTree r0) \<and> \<not> slotTaken (splitPath k) (routerTree r0)"
    using roundtrip_segs [of "routerTree r0" "splitPath k" k "routeOf ?a x" t] that kk
    by (simp add: Delete_def)
  show ?thesis
    using tree(1) new(2) free same by (simp add: r1 r2 r3 fun_upd_idem)
qed

lemma ping_rules: "publishedRules [pingFile] = [pingRule]"
  by (simp add: publishedRules_def methodRules_def ExtractHTTPRules_def parseHTTPRule_def
      pingFile_def pingRule_def)

lemma ping_key: "ruleKey pingEnv (snd (snd pingRule)) = ''/[GET]/v1/ping''"
  by (simp add: ruleKey_def normalizePath_def pingEnv_def pingRule_def asciiTrimSpace_def
      asciiSpace_def asciiToUpper_def trimPrefixSlash_def Let_def)

lemma first_registration_wins_example:
  "fst (RegisterService pingEnv NewHTTPRouter (Some alpha)) = None
   \<and> pathIndex afterAlpha = {''/[GET]/v1/ping''}
   \<and> routeIndex afterAlpha = [''alpha'' \<mapsto> {''/[GET]/v1/ping''}]
   \<and> fst (RegisterService pingEnv afterAlpha (Some beta)) = None
   \<and> routerTree afterBeta = routerTree afterAlpha
   \<and> routeIndex afterBeta = [''alpha'' \<mapsto> {''/[GET]/v1/ping''}]
   \<and> fst (UnRegisterService pingEnv afterBeta (Some alpha)) = None
   \<and> routerTree afterUnregister = NewRouteTree
   \<and> pathIndex afterUnregister = {}
   \<and> routeIndex afterUnregister = Map.empty"
proof -
  let ?k = "''/[GET]/v1/ping''"
  let ?t = "snd (Insert ?k (routeOf ''alpha'' pingRule) NewRouteTree)"
  have n1: "TrimSpace pingEnv (ServiceName (meta alpha)) \<noteq> []"
    and n2: "TrimSpace pingEnv (ServiceName (meta beta)) \<noteq> []"
    and n3: "ServiceName (meta alpha) \<noteq> ServiceName (meta beta)"
    by (simp_all add: pingEnv_def alpha_def beta_def svcInfo_def asciiTrimSpace_def
        asciiSpace_def)
  have new: "servicePools (NewHTTPRouter :: string HTTPRouter) (ServiceName (meta alpha)) = None"
    "routeIndex (NewHTTPRouter :: string HTTPRouter) (ServiceName (meta alpha)) = None"
    by (simp_all add: NewHTTPRouter_def)
  have dA: "createInvokers pingEnv True (Descriptor (meta alpha)) (Instances alpha)
      (Map.empty, []) = ([''10.0.0.1:50051'' \<mapsto> Some ''10.0.0.1:50051''], [pingFile])"
    by (simp add: pingEnv_def alpha_def svcInfo_def instA_def)
  have rA: "publishedRules [pingFile] = pingRule # []" by (simp add: ping_rules)
  have kA: "\<forall>y \<in> set (pingRule # []). ruleKey pingEnv (snd (snd y)) = ?k"
    by (simp add: ping_key)
  have dB: "\<forall>addr invoker files.
        NewGRPCInvoker pingEnv addr (Descriptor (meta beta)) = Inr (invoker, files) \<longrightarrow>
        (\<forall>y \<in> set (publishedRules files).
            ruleKey pingEnv (snd (snd y)) \<in> insert ?k (pathIndex (NewHTTPRouter :: string HTTPRouter)))"
    using ping_rules ping_key by (auto simp: pingEnv_def)
  have t1: "?k \<notin> pathIndex (NewHTTPRouter :: string HTTPRouter)"
    and t2: "keyed (routerTree (NewHTTPRouter :: string HTTPRouter))"
    and t2': "compacted (routerTree (NewHTTPRouter :: string HTTPRouter))"
    by (simp_all add: NewHTTPRouter_def compacted_empty keyed_fresh)
  have t3: "\<not> slotTaken (splitPath ?k) (routerTree (NewHTTPRouter :: string HTTPRouter))"
    by (simp add: NewHTTPRouter_def splitPath_ping NewRouteTree_def)
  have "fst (Insert ?k (routeOf ''alpha'' pingRule) NewRouteTree) = None"
    by (simp add: Insert_def splitPath_ping setter_defs fresh_defs Let_def)
  then have t4: "Insert ?k (routeOf (ServiceName (meta alpha)) pingRule)
      (routerTree (NewHTTPRouter :: string HTTPRouter)) = (None, ?t)"
    by (simp add: prod_eq_iff NewHTTPRouter_def alpha_def svcInfo_def)
  have ord: "rangeOrder pingEnv {?k} = [?k]" by (simp add: pingEnv_def)
  have runs: "RegisterService pingEnv NewHTTPRouter (Some alpha)
        = (fst (RegisterService pingEnv NewHTTPRouter (Some alpha)), afterAlpha)"
    "RegisterService pingEnv afterAlpha (Some beta)
        = (fst (RegisterService pingEnv afterAlpha (Some beta)), afterBeta)"
    "UnRegisterService pingEnv afterBeta (Some alpha)
        = (fst (UnRegisterService pingEnv afterBeta (Some alpha)), afterUnregister)"
    by (simp_all add: afterAlpha_def afterBeta_def afterUnregister_def)
  note w = first_registration_wins [OF n1 n2 n3 new dA rA kA dB t1 t2 t4 ord runs]
  from w have "compacted (routerTree (NewHTTPRouter :: string HTTPRouter))
      \<and> \<not> slotTaken (splitPath ?k) (routerTree (NewHTTPRouter :: string HTTPRouter))
      \<longrightarrow> routerTree afterUnregister = routerTree (NewHTTPRouter :: string HTTPRouter)"
    by - (elim conjE, assumption)
  with t2' t3 have c8: "routerTree afterUnregister = NewRouteTree"
    by (simp add: NewHTTPRouter_def)
  from w have c1: "fst (RegisterService pingEnv NewHTTPRouter (Some alpha)) = None"
    by - (elim conjE, assumption)
  from w have "pathIndex afterAlpha = insert ?k (pathIndex (NewHTTPRouter :: string HTTPRouter))"
    by - (elim conjE, assumption)
  then have c2: "pathIndex afterAlpha = {?k}" by (simp add: NewHTTPRouter_def)
  from w have "routeIndex afterAlpha
      = (routeIndex (NewHTTPRouter :: string HTTPRouter))(ServiceName (meta alpha) \<mapsto> {?k})"
    by - (elim conjE, assumption)
  then have c3: "routeIndex afterAlpha = [''alpha'' \<mapsto> {?k}]"
    by (simp add: NewHTTPRouter_def alpha_def svcInfo_def)
  from w have c4: "fst (RegisterService pingEnv afterAlpha (Some beta)) = None"
    by - (elim conjE, assumption)
  from w have "routerTree afterAlpha = ?t" by - (elim conjE, assumption)
  moreover from w have "routerTree afterBeta = ?t" by - (elim conjE, assumption)
  ultimately have c5: "routerTree afterBeta = routerTree afterAlpha" by simp
  from w have "routeIndex afterBeta = routeIndex afterAlpha" by - (elim conjE, assumption)
  with c3 have c6: "routeIndex afterBeta = [''alpha'' \<mapsto> {?k}]" by simp
  from w have c7: "fst (UnRegisterService pingEnv afterBeta (Some alpha)) = None"
    by - (elim conjE, assumption)
  from w have "pathIndex afterUnregister = pathIndex (NewHTTPRouter :: string HTTPRouter)"
    by - (elim conjE, assumption)
  then have c9: "pathIndex afterUnregister = {}" by (simp add: NewHTTPRouter_def)
  from w have "routeIndex afterUnregister = routeIndex (NewHTTPRouter :: string HTTPRouter)"
    by - (elim conjE, assumption)
  then have c10: "routeIndex afterUnregister = Map.empty" by (simp add: NewHTTPRouter_def)
  from c1 c2 c3 c4 c5 c6 c7 c8 c9 c10 show ?thesis by (intro conjI)
qed

subsection \<open>Keys that differ by a query tail\<close>

lemma register_new:
  fixes env :: "('inv, 'fds) env" and r0 :: "'inv HTTPRouter"
  assumes "TrimSpace env (ServiceName (meta A)) \<noteq> []"
    and "servicePools r0 (ServiceName (meta A)) = None"
      "routeIndex r0 (ServiceName (meta A)) = None"
    and "createInvokers env True (Descriptor (meta A)) (Instances A) (Map.empty, [])
        = (createdA, filesA)"
    and "filesA \<noteq> []"
  shows "RegisterService env r0 (Some A) =
      (None, registerRoutes env (ServiceName (meta A)) filesA
         (r0\<lparr>servicePools := (servicePools r0)(ServiceName (meta A) \<mapsto>
              \<lparr>serviceName = ServiceName (meta A),
               invokers = createdA |` (Addr ` set (Instances A)),
               instances = Instances A, counter = 0\<rparr>)\<rparr>))"
  using assms by (simp add: RegisterService_def Let_def)

lemma splitPath_ping_query:
  "splitPath ''/[GET]/v1/ping?x'' = [''[GET]'', ''v1'', ''ping'']"
  by (simp add: splitPath_def trimBlanks_def cutAtByte_def collapseSlashes.simps Let_def)

lemma ping_query_rules: "publishedRules [pingQueryFile] = [pingAgainRule, pingQueryRule]"
  by (simp add: publishedRules_def pingQueryFile_def pingQueryService_def methodRules_def
      ExtractHTTPRules_def parseHTTPRule_def pingAgainRule_def pingQueryRule_def)

lemma alias_keys:
  "ruleKey aliasEnv (snd (snd pingRule)) = ''/[GET]/v1/ping''"
  "ruleKey aliasEnv (snd (snd pingAgainRule)) = ''/[GET]/v1/ping''"
  "ruleKey aliasEnv (snd (snd pingQueryRule)) = ''/[GET]/v1/ping?x''"
  by (simp_all add: ruleKey_def normalizePath_def aliasEnv_def pingRule_def pingAgainRule_def
      pingQueryRule_def
      asciiTrimSpace_def asciiSpace_def asciiToUpper_def trimPrefixSlash_def Let_def)

lemma alias_names:
  "TrimSpace aliasEnv (ServiceName (meta alpha)) \<noteq> []"
  "TrimSpace aliasEnv (ServiceName (meta beta)) \<noteq> []"
  by (simp_all add: aliasEnv_def alpha_def beta_def svcInfo_def asciiTrimSpace_def asciiSpace_def)

lemma alias_first_tree:
  "Insert ''/[GET]/v1/ping'' (routeOf ''alpha'' pingRule) NewRouteTree =
     (None,
      Node [] Static
        (fmupd ''[GET]''
           (Node ''[GET]'' Static
              (fmupd ''v1''
                 (Node ''v1'' Static
                    (fmupd ''ping''
                       (Node ''ping'' Static fmempty [] None [] None
                          (Some (routeOf ''alpha'' pingRule)) ''/[GET]/v1/ping'')
                       fmempty)
                    [] None [] None None [])
                 fmempty)
              [] None [] None None [])
           fmempty)
        [] None [] None None [])"
  by (simp add: Insert_def splitPath_ping setter_defs fresh_defs Let_def)

lemma alias_second_tree:
  "Insert ''/[GET]/v1/ping?x'' (routeOf ''beta'' pingQueryRule)
     (snd (Insert ''/[GET]/v1/ping'' (routeOf ''alpha'' pingRule) NewRouteTree)) =
     (None,
      Node [] Static
        (fmupd ''[GET]''
           (Node ''[GET]'' Static
              (fmupd ''v1''
                 (Node ''v1'' Static
                    (fmupd ''ping''
                       (Node ''ping'' Static fmempty [] None [] None
                          (Some (routeOf ''beta'' pingQueryRule)) ''/[GET]/v1/ping?x'')
                       fmempty)
                    [] None [] None None [])
                 fmempty)
              [] None [] None None [])
           fmempty)
        [] None [] None None [])"
  by (simp add: alias_first_tree)
     (simp add: Insert_def splitPath_ping_query setter_defs fresh_defs Let_def)

lemma alias_delete:
  "snd (Delete ''/[GET]/v1/ping''
     (snd (Insert ''/[GET]/v1/ping?x'' (routeOf ''beta'' pingQueryRule)
        (snd (Insert ''/[GET]/v1/ping'' (routeOf ''alpha'' pingRule) NewRouteTree))))) = NewRouteTree"
  by (simp add: alias_second_tree)
     (simp add: Delete_def splitPath_ping setter_defs fresh_defs unlink_def isBare_def Let_def
       fmdrop_fmupd_same)


text \<open>
  Claim C6. The path index compares the keys as strings and \<open>normalizePath\<close> keeps a
  query or fragment tail of the path, while \<open>splitPath\<close>, through which \<open>Insert\<close>,
  \<open>Lookup\<close> and \<open>Delete\<close> read a key, drops it. Service \<open>alpha\<close> publishes
  \<open>GET /v1/ping\<close>; service \<open>beta\<close> publishes \<open>GET /v1/ping\<close> and \<open>GET /v1/ping?x\<close>.
  Registering \<open>beta\<close> after \<open>alpha\<close> returns no error and skips the first rule of
  \<open>beta\<close>, but the second rule passes the check of the path index and \<open>Insert\<close> writes
  it into the node of \<open>/[GET]/v1/ping\<close>: the installed route of \<open>alpha\<close> is replaced by
  a route of \<open>beta\<close>. Unregistering \<open>alpha\<close> then deletes that node: the tree holds no
  route, and the key of \<open>beta\<close> is still in the path index and in the route index.
\<close>

theorem second_registration_replaces_route:
  "fst (RegisterService aliasEnv NewHTTPRouter (Some alpha)) = None
   \<and> Lookup ''/[GET]/v1/ping'' (routerTree aliasAfterAlpha)
       = Some (routeOf ''alpha'' pingRule, Map.empty)
   \<and> pathIndex aliasAfterAlpha = {''/[GET]/v1/ping''}
   \<and> fst (RegisterService aliasEnv aliasAfterAlpha (Some beta)) = None
   \<and> Lookup ''/[GET]/v1/ping'' (routerTree aliasAfterBeta)
       = Some (routeOf ''beta'' pingQueryRule, Map.empty)
   \<and> pathIndex aliasAfterBeta = {''/[GET]/v1/ping'', ''/[GET]/v1/ping?x''}
   \<and> routeIndex aliasAfterBeta
       = [''alpha'' \<mapsto> {''/[GET]/v1/ping''}, ''beta'' \<mapsto> {''/[GET]/v1/ping?x''}]
   \<and> fst (UnRegisterService aliasEnv aliasAfterBeta (Some alpha)) = None
   \<and> routerTree aliasAfterUnregister = NewRouteTree
   \<and> pathIndex aliasAfterUnregister = {''/[GET]/v1/ping?x''}
   \<and> routeIndex aliasAfterUnregister = [''beta'' \<mapsto> {''/[GET]/v1/ping?x''}]"
proof -
  let ?k = "''/[GET]/v1/ping''"
  let ?kq = "''/[GET]/v1/ping?x''"
  let ?r0 = "NewHTTPRouter :: string HTTPRouter"
  let ?t1 = "snd (Insert ?k (routeOf ''alpha'' pingRule) NewRouteTree)"
  let ?t2 = "snd (Insert ?kq (routeOf ''beta'' pingQueryRule) ?t1)"
  let ?poolA = "\<lparr>serviceName = ''alpha'',
      invokers = [''10.0.0.1:50051'' \<mapsto> Some ''10.0.0.1:50051''] |` (Addr ` set (Instances alpha)),
      instances = Instances alpha, counter = 0 :: 64 word\<rparr>"
  let ?poolB = "\<lparr>serviceName = ''beta'',
      invokers = [''10.0.0.2:50051'' \<mapsto> Some ''10.0.0.2:50051''] |` (Addr ` set (Instances beta)),
      instances = Instances beta, counter = 0 :: 64 word\<rparr>"
  have nameA: "ServiceName (meta alpha) = ''alpha''" and nameB: "ServiceName (meta beta) = ''beta''"
    by (simp_all add: alpha_def beta_def svcInfo_def)
  have dA: "createInvokers aliasEnv True (Descriptor (meta alpha)) (Instances alpha)
      (Map.empty, []) = ([''10.0.0.1:50051'' \<mapsto> Some ''10.0.0.1:50051''], [pingFile])"
    by (simp add: aliasEnv_def alpha_def svcInfo_def instA_def)
  have dB: "createInvokers aliasEnv True (Descriptor (meta beta)) (Instances beta)
      (Map.empty, []) = ([''10.0.0.2:50051'' \<mapsto> Some ''10.0.0.2:50051''], [pingQueryFile])"
    by (simp add: aliasEnv_def beta_def svcInfo_def instB_def)
  have "RegisterService aliasEnv ?r0 (Some alpha) =
      (None, registerRoutes aliasEnv ''alpha'' [pingFile]
         (?r0\<lparr>servicePools := (servicePools ?r0)(''alpha'' \<mapsto> ?poolA)\<rparr>))"
    using register_new [OF alias_names(1) _ _ dA, of ?r0]
    by (simp add: nameA NewHTTPRouter_def)
  also have "registerRoutes aliasEnv ''alpha'' [pingFile]
         (?r0\<lparr>servicePools := (servicePools ?r0)(''alpha'' \<mapsto> ?poolA)\<rparr>) =
      \<lparr>routerTree = ?t1, servicePools = [''alpha'' \<mapsto> ?poolA],
       routeIndex = [''alpha'' \<mapsto> {?k}], pathIndex = {?k}\<rparr>"
    using registerStep_installs [of aliasEnv pingRule
        "?r0\<lparr>servicePools := (servicePools ?r0)(''alpha'' \<mapsto> ?poolA)\<rparr>" "''alpha''" ?t1]
    by (simp add: registerRoutes_flat ping_rules alias_keys NewHTTPRouter_def alias_first_tree)
  finally have regA: "RegisterService aliasEnv ?r0 (Some alpha) =
      (None, \<lparr>routerTree = ?t1, servicePools = [''alpha'' \<mapsto> ?poolA],
         routeIndex = [''alpha'' \<mapsto> {?k}], pathIndex = {?k}\<rparr>)" .
  then have a: "aliasAfterAlpha =
      \<lparr>routerTree = ?t1, servicePools = [''alpha'' \<mapsto> ?poolA],
       routeIndex = [''alpha'' \<mapsto> {?k}], pathIndex = {?k}\<rparr>"
    by (simp add: aliasAfterAlpha_def)
  let ?rb = "aliasAfterAlpha\<lparr>servicePools :=
      (servicePools aliasAfterAlpha)(''beta'' \<mapsto> ?poolB)\<rparr>"
  have "RegisterService aliasEnv aliasAfterAlpha (Some beta) =
      (None, registerRoutes aliasEnv ''beta'' [pingQueryFile] ?rb)"
    using register_new [OF alias_names(2) _ _ dB, of aliasAfterAlpha]
    by (simp add: nameB a)
  also have "registerRoutes aliasEnv ''beta'' [pingQueryFile] ?rb =
      registerStep aliasEnv ''beta'' (registerStep aliasEnv ''beta'' ?rb pingAgainRule)
        pingQueryRule"
    by (simp add: registerRoutes_flat ping_query_rules)
  also have "registerStep aliasEnv ''beta'' ?rb pingAgainRule = ?rb"
    by (rule registerStep_claimed) (simp add: alias_keys a)
  also have "registerStep aliasEnv ''beta'' ?rb pingQueryRule =
      \<lparr>routerTree = ?t2, servicePools = [''alpha'' \<mapsto> ?poolA, ''beta'' \<mapsto> ?poolB],
       routeIndex = [''alpha'' \<mapsto> {?k}, ''beta'' \<mapsto> {?kq}], pathIndex = {?k, ?kq}\<rparr>"
    using registerStep_installs [of aliasEnv pingQueryRule ?rb "''beta''" ?t2]
    by (simp add: alias_keys a alias_second_tree insert_commute)
  finally have regB: "RegisterService aliasEnv aliasAfterAlpha (Some beta) =
      (None, \<lparr>routerTree = ?t2, servicePools = [''alpha'' \<mapsto> ?poolA, ''beta'' \<mapsto> ?poolB],
       routeIndex = [''alpha'' \<mapsto> {?k}, ''beta'' \<mapsto> {?kq}], pathIndex = {?k, ?kq}\<rparr>)" .
  then have b: "aliasAfterBeta =
      \<lparr>routerTree = ?t2, servicePools = [''alpha'' \<mapsto> ?poolA, ''beta'' \<mapsto> ?poolB],
       routeIndex = [''alpha'' \<mapsto> {?k}, ''beta'' \<mapsto> {?kq}], pathIndex = {?k, ?kq}\<rparr>"
    by (simp add: aliasAfterBeta_def)
  have ord: "rangeOrder aliasEnv {?k} = [?k]" by (simp add: aliasEnv_def)
  have rb: "routeIndex aliasAfterBeta (ServiceName (meta alpha)) = Some {?k}"
    by (simp add: b nameA)
  note unreg = unregister_single [OF alias_names(1) rb ord]
  have c: "aliasAfterUnregister =
      \<lparr>routerTree = NewRouteTree, servicePools = [''beta'' \<mapsto> ?poolB],
       routeIndex = [''beta'' \<mapsto> {?kq}], pathIndex = {?kq}\<rparr>"
    unfolding aliasAfterUnregister_def unreg
    by (simp add: b nameA alias_delete)
  have c1: "fst (RegisterService aliasEnv NewHTTPRouter (Some alpha)) = None"
    by (simp add: regA)
  have c2: "Lookup ?k (routerTree aliasAfterAlpha) = Some (routeOf ''alpha'' pingRule, Map.empty)"
    by (simp add: a alias_first_tree Lookup_def splitPath_ping)
  have c3: "pathIndex aliasAfterAlpha = {?k}" by (simp add: a)
  have c4: "fst (RegisterService aliasEnv aliasAfterAlpha (Some beta)) = None"
    by (simp add: regB)
  have c5: "Lookup ?k (routerTree aliasAfterBeta)
      = Some (routeOf ''beta'' pingQueryRule, Map.empty)"
    by (simp add: b alias_second_tree Lookup_def splitPath_ping)
  have c6: "pathIndex aliasAfterBeta = {?k, ?kq}" by (simp add: b)
  have c7: "routeIndex aliasAfterBeta = [''alpha'' \<mapsto> {?k}, ''beta'' \<mapsto> {?kq}]"
    by (simp add: b)
  have c8: "fst (UnRegisterService aliasEnv aliasAfterBeta (Some alpha)) = None"
    by (simp add: unreg)
  have c9: "routerTree aliasAfterUnregister = NewRouteTree" by (simp add: c)
  have c10: "pathIndex aliasAfterUnregister = {?kq}" by (simp add: c)
  have c11: "routeIndex aliasAfterUnregister = [''beta'' \<mapsto> {?kq}]" by (simp add: c)
  from c1 c2 c3 c4 c5 c6 c7 c8 c9 c10 c11 show ?thesis by (intro conjI)
qed

theorem second_registration_replaces_route_witness:
  "Lookup ''/[GET]/v1/ping'' (routerTree aliasAfterBeta)
     \<noteq> Lookup ''/[GET]/v1/ping'' (routerTree aliasAfterAlpha)
   \<and> ''/[GET]/v1/ping?x'' \<in> pathIndex aliasAfterUnregister
   \<and> Lookup ''/[GET]/v1/ping?x'' (routerTree aliasAfterUnregister) = None"
  using second_registration_replaces_route
  by (simp add: Lookup_def splitPath_ping_query NewRouteTree_def routeOf_def pingRule_def
      pingQueryRule_def)

end
